theory Spec2Isabelle
  imports Main
begin

section \<open>Python values, exceptions and the event log\<close>

text \<open>
  The orchestration kernel of \<^verbatim>\<open>pockerflow-lixx/__init__.py\<close> is embedded
  method by method. A dynamically typed Python value is a \<open>pyval\<close>; an object is an
  address into per-attribute heaps, so that \<^verbatim>\<open>copy.copy\<close> (a shallow copy: a
  new object whose attributes reference the same dicts) and in-place mutation of a shared
  dict are both visible in the model.
\<close>

type_synonym addr = nat

datatype pyval =
    PNone
  | PStr string
  | PInt int
  | PList "pyval list"
  | PDict "(string \<times> pyval) list"

text \<open>Python truthiness, and \<^verbatim>\<open>a or b\<close>.\<close>

fun truthy :: "pyval \<Rightarrow> bool" where
  "truthy PNone = False"
| "truthy (PStr s) = (s \<noteq> [])"
| "truthy (PInt i) = (i \<noteq> 0)"
| "truthy (PList xs) = (xs \<noteq> [])"
| "truthy (PDict kvs) = (kvs \<noteq> [])"

definition py_or :: "pyval \<Rightarrow> pyval \<Rightarrow> pyval" where
  "py_or a b = (if truthy a then a else b)"

text \<open>Lists and dicts are unhashable: using one as a dict key raises \<^verbatim>\<open>TypeError\<close>.\<close>

fun hashable :: "pyval \<Rightarrow> bool" where
  "hashable (PList xs) = False"
| "hashable (PDict kvs) = False"
| "hashable v = True"

fun is_str :: "pyval \<Rightarrow> bool" where
  "is_str (PStr s) = True"
| "is_str v = False"

text \<open>
  Exceptions are the instances of \<^verbatim>\<open>Exception\<close>: what \<^verbatim>\<open>except Exception\<close>
  catches. \<open>UserError\<close> stands for any exception class of user code.
\<close>

datatype exn = TypeError string | RuntimeError string | UserError pyval

text \<open>Iterating a value with \<^verbatim>\<open>for\<close>: a list yields its items, a string its
  characters, a dict its keys; \<^verbatim>\<open>None\<close> and numbers are not iterable.\<close>

fun py_iter :: "pyval \<Rightarrow> exn + pyval list" where
  "py_iter (PList xs) = Inr xs"
| "py_iter (PStr s) = Inr (map (\<lambda>c. PStr [c]) s)"
| "py_iter (PDict kvs) = Inr (map (\<lambda>kv. PStr (fst kv)) kvs)"
| "py_iter PNone = Inl (TypeError ''object is not iterable'')"
| "py_iter (PInt i) = Inl (TypeError ''object is not iterable'')"

text \<open>\<^verbatim>\<open>range(n)\<close> for an integer \<open>n\<close>: empty when \<open>n \<le> 0\<close>.\<close>

definition py_range :: "int \<Rightarrow> int list" where
  "py_range n = map int [0..<nat n]"

text \<open>A dict keeps insertion order; assigning an existing key keeps its position.\<close>

fun dict_set :: "('k \<times> 'v) list \<Rightarrow> 'k \<Rightarrow> 'v \<Rightarrow> ('k \<times> 'v) list" where
  "dict_set [] k v = [(k, v)]"
| "dict_set (p # ps) k v = (if fst p = k then (k, v) # ps else p # dict_set ps k v)"

text \<open>\<^verbatim>\<open>{**a, **b}\<close>: the items of \<open>a\<close>, then each item of \<open>b\<close> assigned in order.\<close>

fun dict_merge :: "('k \<times> 'v) list \<Rightarrow> ('k \<times> 'v) list \<Rightarrow> ('k \<times> 'v) list" where
  "dict_merge a [] = a"
| "dict_merge a (p # ps) = dict_merge (dict_set a (fst p) (snd p)) ps"

datatype warning =
    Overwriting pyval
  | WontRunSuccessors
  | FlowEnds pyval "pyval list"

text \<open>
  What user code reads of the engine-owned attributes of \<^verbatim>\<open>self\<close> inside a hook:
  the object's identity and \<^verbatim>\<open>self.cur_retry\<close>.
\<close>

record selfv =
  self_id :: addr
  cur_retry :: int

text \<open>
  The event log is instrumentation: the engine appends one event for every call of a
  user hook (with the arguments passed and the outcome), every sleep and every warning.
  User code cannot touch it.
\<close>

datatype phase =
    Prep addr
  | Exec pyval
  | Fallback pyval exn
  | Post addr pyval pyval
  | ExecAsync pyval
  | FallbackAsync pyval exn

datatype event =
    Call selfv phase "exn + pyval"
  | Sleep int
  | AsyncSleep int
  | Warn warning

section \<open>Objects\<close>

text \<open>
  The part of the heap that hook code may read and write: the \<^verbatim>\<open>params\<close>
  attribute of every node object (a reference to a dict object), the dict objects, the
  allocation pointer, and everything else user code owns (the shared object among it).
\<close>

record 'w ustate =
  params_f :: "addr \<Rightarrow> addr"
  dicts :: "addr \<Rightarrow> (string \<times> pyval) list"
  fresh :: addr
  world :: 'w

type_synonym 'w hook_res = "(exn + pyval) \<times> 'w ustate"

text \<open>The classes of the module.\<close>

datatype cls =
    BaseNode
  | Node
  | BatchNode
  | Flow
  | BatchFlow
  | AsyncNode
  | AsyncBatchNode
  | AsyncParallelBatchNode
  | AsyncFlow
  | AsyncBatchFlow
  | AsyncParallelBatchFlow

text \<open>
  A class of user code: one of the module's classes as \<open>base\<close>, with the hooks as
  resolved on an instance (overridden by the user, or inherited). The shared object is
  passed to \<open>prep\<close> and \<open>post\<close> by reference.
\<close>

record 'w pyclass =
  base :: cls
  prep :: "selfv \<Rightarrow> addr \<Rightarrow> 'w ustate \<Rightarrow> 'w hook_res"
  exec :: "selfv \<Rightarrow> pyval \<Rightarrow> 'w ustate \<Rightarrow> 'w hook_res"
  exec_fallback :: "selfv \<Rightarrow> pyval \<Rightarrow> exn \<Rightarrow> 'w ustate \<Rightarrow> 'w hook_res"
  post :: "selfv \<Rightarrow> addr \<Rightarrow> pyval \<Rightarrow> pyval \<Rightarrow> 'w ustate \<Rightarrow> 'w hook_res"
  exec_async :: "selfv \<Rightarrow> pyval \<Rightarrow> 'w ustate \<Rightarrow> 'w hook_res"
  exec_fallback_async :: "selfv \<Rightarrow> pyval \<Rightarrow> exn \<Rightarrow> 'w ustate \<Rightarrow> 'w hook_res"

text \<open>
  The whole state: the engine-owned attributes of every object (read-only to hooks),
  the successor dicts (\<^verbatim>\<open>successors\<close> is a reference, shared by a shallow copy),
  the user part and the event log.
\<close>

record 'w state =
  class_of :: "addr \<Rightarrow> 'w pyclass"
  max_retries_f :: "addr \<Rightarrow> int"
  wait_f :: "addr \<Rightarrow> int"
  cur_retry_f :: "addr \<Rightarrow> int"
  successors_f :: "addr \<Rightarrow> addr"
  succ_dicts :: "addr \<Rightarrow> (pyval \<times> addr) list"
  start_node_f :: "addr \<Rightarrow> addr option"
  usr :: "'w ustate"
  trace :: "event list"

type_synonym ('a, 'w) res = "(exn + 'a) \<times> 'w state"

definition warn :: "warning \<Rightarrow> 'w state \<Rightarrow> 'w state" where
  "warn w s = s\<lparr>trace := trace s @ [Warn w]\<rparr>"

definition view :: "'w state \<Rightarrow> addr \<Rightarrow> selfv" where
  "view s c = \<lparr>self_id = c, cur_retry = cur_retry_f s c\<rparr>"

subsection \<open>The default hooks of the module's classes\<close>

definition BaseNode_prep :: "selfv \<Rightarrow> addr \<Rightarrow> 'w ustate \<Rightarrow> 'w hook_res" where
  "BaseNode_prep v shared u = (Inr PNone, u)"

definition BaseNode_exec :: "selfv \<Rightarrow> pyval \<Rightarrow> 'w ustate \<Rightarrow> 'w hook_res" where
  "BaseNode_exec v prep_res u = (Inr PNone, u)"

definition BaseNode_post :: "selfv \<Rightarrow> addr \<Rightarrow> pyval \<Rightarrow> pyval \<Rightarrow> 'w ustate \<Rightarrow> 'w hook_res" where
  "BaseNode_post v shared prep_res exec_res u = (Inr PNone, u)"

definition Node_exec_fallback :: "selfv \<Rightarrow> pyval \<Rightarrow> exn \<Rightarrow> 'w ustate \<Rightarrow> 'w hook_res" where
  "Node_exec_fallback v prep_res exception u = (Inl exception, u)"

definition Flow_post :: "selfv \<Rightarrow> addr \<Rightarrow> pyval \<Rightarrow> pyval \<Rightarrow> 'w ustate \<Rightarrow> 'w hook_res" where
  "Flow_post v shared prep_res exec_res u = (Inr exec_res, u)"

definition AsyncNode_exec_async :: "selfv \<Rightarrow> pyval \<Rightarrow> 'w ustate \<Rightarrow> 'w hook_res" where
  "AsyncNode_exec_async v prep_res u = (Inr PNone, u)"

definition AsyncNode_exec_fallback_async ::
  "selfv \<Rightarrow> pyval \<Rightarrow> exn \<Rightarrow> 'w ustate \<Rightarrow> 'w hook_res" where
  "AsyncNode_exec_fallback_async v prep_res exc u = (Inl exc, u)"

subsection \<open>Calling a hook\<close>

text \<open>Each call runs the hook on the user part of the state and logs the call.\<close>

definition call_prep :: "addr \<Rightarrow> addr \<Rightarrow> 'w state \<Rightarrow> (pyval, 'w) res" where
  "call_prep c shared s =
     (case prep (class_of s c) (view s c) shared (usr s) of
        (r, u) \<Rightarrow> (r, s\<lparr>usr := u, trace := trace s @ [Call (view s c) (Prep shared) r]\<rparr>))"

definition call_exec :: "addr \<Rightarrow> pyval \<Rightarrow> 'w state \<Rightarrow> (pyval, 'w) res" where
  "call_exec c prep_res s =
     (case exec (class_of s c) (view s c) prep_res (usr s) of
        (r, u) \<Rightarrow> (r, s\<lparr>usr := u, trace := trace s @ [Call (view s c) (Exec prep_res) r]\<rparr>))"

definition call_exec_fallback :: "addr \<Rightarrow> pyval \<Rightarrow> exn \<Rightarrow> 'w state \<Rightarrow> (pyval, 'w) res" where
  "call_exec_fallback c prep_res e s =
     (case exec_fallback (class_of s c) (view s c) prep_res e (usr s) of
        (r, u) \<Rightarrow>
          (r, s\<lparr>usr := u, trace := trace s @ [Call (view s c) (Fallback prep_res e) r]\<rparr>))"

definition call_post :: "addr \<Rightarrow> addr \<Rightarrow> pyval \<Rightarrow> pyval \<Rightarrow> 'w state \<Rightarrow> (pyval, 'w) res" where
  "call_post c shared prep_res exec_res s =
     (case post (class_of s c) (view s c) shared prep_res exec_res (usr s) of
        (r, u) \<Rightarrow>
          (r, s\<lparr>usr := u,
                trace := trace s @ [Call (view s c) (Post shared prep_res exec_res) r]\<rparr>))"

definition call_exec_async :: "addr \<Rightarrow> pyval \<Rightarrow> 'w state \<Rightarrow> (pyval, 'w) res" where
  "call_exec_async c prep_res s =
     (case exec_async (class_of s c) (view s c) prep_res (usr s) of
        (r, u) \<Rightarrow>
          (r, s\<lparr>usr := u, trace := trace s @ [Call (view s c) (ExecAsync prep_res) r]\<rparr>))"

definition call_exec_fallback_async ::
  "addr \<Rightarrow> pyval \<Rightarrow> exn \<Rightarrow> 'w state \<Rightarrow> (pyval, 'w) res" where
  "call_exec_fallback_async c prep_res e s =
     (case exec_fallback_async (class_of s c) (view s c) prep_res e (usr s) of
        (r, u) \<Rightarrow>
          (r, s\<lparr>usr := u,
                trace := trace s @ [Call (view s c) (FallbackAsync prep_res e) r]\<rparr>))"

definition sleep :: "int \<Rightarrow> 'w state \<Rightarrow> 'w state" where
  "sleep w s = s\<lparr>trace := trace s @ [Sleep w]\<rparr>"

definition async_sleep :: "int \<Rightarrow> 'w state \<Rightarrow> 'w state" where
  "async_sleep w s = s\<lparr>trace := trace s @ [AsyncSleep w]\<rparr>"

section \<open>The retry engine\<close>

text \<open>
  \<^verbatim>\<open>Node._exec\<close>: the loop \<^verbatim>\<open>for self.cur_retry in range(self.max_retries)\<close>
  assigns the attribute at the start of every iteration; the \<^verbatim>\<open>except\<close> branch reads
  \<^verbatim>\<open>self.cur_retry\<close> and \<^verbatim>\<open>self.max_retries\<close> again. A loop that ends without
  returning makes the method return \<^verbatim>\<open>None\<close>.
\<close>

fun Node__exec_for :: "int list \<Rightarrow> addr \<Rightarrow> pyval \<Rightarrow> 'w state \<Rightarrow> (pyval, 'w) res" where
  "Node__exec_for [] c prep_res s = (Inr PNone, s)"
| "Node__exec_for (k # ks) c prep_res s =
     (case call_exec c prep_res (s\<lparr>cur_retry_f := (cur_retry_f s)(c := k)\<rparr>) of
        (Inr v, s2) \<Rightarrow> (Inr v, s2)
      | (Inl e, s2) \<Rightarrow>
          if cur_retry_f s2 c = max_retries_f s2 c - 1
          then call_exec_fallback c prep_res e s2
          else Node__exec_for ks c prep_res
                 (if wait_f s2 c > 0 then sleep (wait_f s2 c) s2 else s2))"

definition Node__exec :: "addr \<Rightarrow> pyval \<Rightarrow> 'w state \<Rightarrow> (pyval, 'w) res" where
  "Node__exec c prep_res s = Node__exec_for (py_range (max_retries_f s c)) c prep_res s"

text \<open>
  \<^verbatim>\<open>AsyncNode._exec\<close>: the loop variable is the local \<^verbatim>\<open>i\<close>, the attribute
  \<^verbatim>\<open>self.cur_retry\<close> is not assigned. Awaiting a hook is a call of it; the
  interleaving with other tasks at the suspension points is outside the model.
\<close>

fun AsyncNode__exec_for :: "int list \<Rightarrow> addr \<Rightarrow> pyval \<Rightarrow> 'w state \<Rightarrow> (pyval, 'w) res" where
  "AsyncNode__exec_for [] c prep_res s = (Inr PNone, s)"
| "AsyncNode__exec_for (i # is) c prep_res s =
     (case call_exec_async c prep_res s of
        (Inr v, s2) \<Rightarrow> (Inr v, s2)
      | (Inl e, s2) \<Rightarrow>
          if i = max_retries_f s2 c - 1
          then call_exec_fallback_async c prep_res e s2
          else AsyncNode__exec_for is c prep_res
                 (if wait_f s2 c > 0 then async_sleep (wait_f s2 c) s2 else s2))"

definition AsyncNode__exec :: "addr \<Rightarrow> pyval \<Rightarrow> 'w state \<Rightarrow> (pyval, 'w) res" where
  "AsyncNode__exec c prep_res s =
     AsyncNode__exec_for (py_range (max_retries_f s c)) c prep_res s"

text \<open>\<^verbatim>\<open>BaseNode._exec\<close> calls the hook once.\<close>

definition BaseNode__exec :: "addr \<Rightarrow> pyval \<Rightarrow> 'w state \<Rightarrow> (pyval, 'w) res" where
  "BaseNode__exec c prep_res s = call_exec c prep_res s"

section \<open>The batch adapter\<close>

text \<open>
  \<^verbatim>\<open>BatchNode._exec\<close>: the list comprehension over \<^verbatim>\<open>(items or [])\<close>, each item
  through \<^verbatim>\<open>Node._exec\<close> (the next \<^verbatim>\<open>_exec\<close> after \<^verbatim>\<open>BatchNode\<close> in
  the method resolution order). An exception of one item ends the comprehension.
\<close>

fun BatchNode__exec_items ::
  "addr \<Rightarrow> pyval list \<Rightarrow> 'w state \<Rightarrow> (pyval list, 'w) res" where
  "BatchNode__exec_items c [] s = (Inr [], s)"
| "BatchNode__exec_items c (i # is) s =
     (case Node__exec c i s of
        (Inl e, s1) \<Rightarrow> (Inl e, s1)
      | (Inr r, s1) \<Rightarrow>
          (case BatchNode__exec_items c is s1 of
             (Inl e, s2) \<Rightarrow> (Inl e, s2)
           | (Inr rs, s2) \<Rightarrow> (Inr (r # rs), s2)))"

definition BatchNode__exec :: "addr \<Rightarrow> pyval \<Rightarrow> 'w state \<Rightarrow> (pyval, 'w) res" where
  "BatchNode__exec c items s =
     (case py_iter (py_or items (PList [])) of
        Inl e \<Rightarrow> (Inl e, s)
      | Inr xs \<Rightarrow>
          (case BatchNode__exec_items c xs s of
             (Inl e, s1) \<Rightarrow> (Inl e, s1)
           | (Inr rs, s1) \<Rightarrow> (Inr (PList rs), s1)))"

section \<open>Objects: construction, copy, wiring\<close>

text \<open>
  Object creation \<^verbatim>\<open>K(...)\<close>, through the \<^verbatim>\<open>__init__\<close> chain:
  \<^verbatim>\<open>BaseNode.__init__\<close> gives the object an empty \<^verbatim>\<open>params\<close> dict and an empty
  \<^verbatim>\<open>successors\<close> dict; \<^verbatim>\<open>Node.__init__\<close> stores \<^verbatim>\<open>max_retries\<close>,
  \<^verbatim>\<open>wait\<close> and \<^verbatim>\<open>cur_retry = 0\<close>; \<^verbatim>\<open>Flow.__init__\<close> stores
  \<^verbatim>\<open>start_node\<close>. An attribute that a class does not have is never read.
\<close>

definition new_object ::
  "'w pyclass \<Rightarrow> int \<Rightarrow> int \<Rightarrow> addr option \<Rightarrow> 'w state \<Rightarrow> addr \<times> 'w state" where
  "new_object k max_retries wait start_node s =
     (let self = fresh (usr s); d = Suc self; sd = Suc (Suc self) in
      (self,
       s\<lparr>class_of := (class_of s)(self := k),
         max_retries_f := (max_retries_f s)(self := max_retries),
         wait_f := (wait_f s)(self := wait),
         cur_retry_f := (cur_retry_f s)(self := 0),
         successors_f := (successors_f s)(self := sd),
         succ_dicts := (succ_dicts s)(sd := []),
         start_node_f := (start_node_f s)(self := start_node),
         usr := (usr s)\<lparr>params_f := (params_f (usr s))(self := d),
                         dicts := (dicts (usr s))(d := []),
                         fresh := Suc (Suc (Suc self))\<rparr>\<rparr>))"

text \<open>\<^verbatim>\<open>copy.copy\<close>: a new object with the same attribute values (the same
  references); \<^verbatim>\<open>copy.copy(None)\<close> is \<^verbatim>\<open>None\<close>.\<close>

definition copy_copy :: "addr option \<Rightarrow> 'w state \<Rightarrow> addr option \<times> 'w state" where
  "copy_copy x s =
     (case x of
        None \<Rightarrow> (None, s)
      | Some a \<Rightarrow>
          (let c = fresh (usr s) in
           (Some c,
            s\<lparr>class_of := (class_of s)(c := class_of s a),
              max_retries_f := (max_retries_f s)(c := max_retries_f s a),
              wait_f := (wait_f s)(c := wait_f s a),
              cur_retry_f := (cur_retry_f s)(c := cur_retry_f s a),
              successors_f := (successors_f s)(c := successors_f s a),
              start_node_f := (start_node_f s)(c := start_node_f s a),
              usr := (usr s)\<lparr>params_f := (params_f (usr s))(c := params_f (usr s) a),
                              fresh := Suc c\<rparr>\<rparr>)))"

text \<open>A dict display \<^verbatim>\<open>{...}\<close> creates a new dict object.\<close>

definition new_dict :: "(string \<times> pyval) list \<Rightarrow> 'w state \<Rightarrow> addr \<times> 'w state" where
  "new_dict kvs s =
     (let d = fresh (usr s) in
      (d, s\<lparr>usr := (usr s)\<lparr>dicts := (dicts (usr s))(d := kvs), fresh := Suc d\<rparr>\<rparr>))"

definition BaseNode_set_params :: "addr \<Rightarrow> addr \<Rightarrow> 'w state \<Rightarrow> 'w state" where
  "BaseNode_set_params self params s =
     s\<lparr>usr := (usr s)\<lparr>params_f := (params_f (usr s))(self := params)\<rparr>\<rparr>"

text \<open>The successor dict of an object.\<close>

definition successors :: "'w state \<Rightarrow> addr \<Rightarrow> (pyval \<times> addr) list" where
  "successors s a = succ_dicts s (successors_f s a)"

text \<open>\<^verbatim>\<open>BaseNode.next(node, action)\<close>.\<close>

definition BaseNode_next :: "addr \<Rightarrow> addr \<Rightarrow> pyval \<Rightarrow> 'w state \<Rightarrow> (addr, 'w) res" where
  "BaseNode_next self node action s =
     (if \<not> hashable action then (Inl (TypeError ''unhashable type''), s)
      else
        (let s1 = (if map_of (successors s self) action \<noteq> None
                   then warn (Overwriting action) s else s)
         in (Inr node,
             s1\<lparr>succ_dicts := (succ_dicts s1)
                  (successors_f s1 self := dict_set (successors s1 self) action node)\<rparr>)))"

text \<open>\<^verbatim>\<open>BaseNode.__rshift__\<close>: \<^verbatim>\<open>a >> b\<close>.\<close>

definition BaseNode_rshift :: "addr \<Rightarrow> addr \<Rightarrow> 'w state \<Rightarrow> (addr, 'w) res" where
  "BaseNode_rshift self other_node s = BaseNode_next self other_node (PStr ''default'') s"

text \<open>The pending edge \<^verbatim>\<open>_ConditionalTransition\<close>, and \<^verbatim>\<open>BaseNode.__sub__\<close>
  that creates it: \<^verbatim>\<open>node - "label"\<close> (the attributes \<^verbatim>\<open>src\<close> and
  \<^verbatim>\<open>action\<close>).\<close>

record ConditionalTransition =
  ct_src :: addr
  ct_action :: pyval

definition BaseNode_sub :: "addr \<Rightarrow> pyval \<Rightarrow> exn + ConditionalTransition" where
  "BaseNode_sub self action_name =
     (if is_str action_name then Inr \<lparr>ct_src = self, ct_action = action_name\<rparr>
      else Inl (TypeError ''Action must be a string''))"

definition ConditionalTransition_rshift ::
  "ConditionalTransition \<Rightarrow> addr \<Rightarrow> 'w state \<Rightarrow> (addr, 'w) res" where
  "ConditionalTransition_rshift ct target_node s =
     BaseNode_next (ct_src ct) target_node (ct_action ct) s"

text \<open>The whole expression \<^verbatim>\<open>(frm - label) >> target\<close>.\<close>

definition sub_then_rshift :: "addr \<Rightarrow> pyval \<Rightarrow> addr \<Rightarrow> 'w state \<Rightarrow> (addr, 'w) res" where
  "sub_then_rshift frm label target s =
     (case BaseNode_sub frm label of
        Inl e \<Rightarrow> (Inl e, s)
      | Inr ct \<Rightarrow> ConditionalTransition_rshift ct target s)"

section \<open>Method resolution\<close>

text \<open>
  The method resolution order of every class (the C3 linearisation of the
  \<^verbatim>\<open>class\<close> statements), and the classes whose body defines \<^verbatim>\<open>_run\<close> and
  \<^verbatim>\<open>_exec\<close>. An attribute lookup takes the first class of the order that defines
  the name.
\<close>

fun mro :: "cls \<Rightarrow> cls list" where
  "mro BaseNode = [BaseNode]"
| "mro Node = [Node, BaseNode]"
| "mro BatchNode = [BatchNode, Node, BaseNode]"
| "mro Flow = [Flow, BaseNode]"
| "mro BatchFlow = [BatchFlow, Flow, BaseNode]"
| "mro AsyncNode = [AsyncNode, Node, BaseNode]"
| "mro AsyncBatchNode = [AsyncBatchNode, AsyncNode, BatchNode, Node, BaseNode]"
| "mro AsyncParallelBatchNode =
     [AsyncParallelBatchNode, AsyncNode, BatchNode, Node, BaseNode]"
| "mro AsyncFlow = [AsyncFlow, Flow, AsyncNode, Node, BaseNode]"
| "mro AsyncBatchFlow =
     [AsyncBatchFlow, AsyncFlow, BatchFlow, Flow, AsyncNode, Node, BaseNode]"
| "mro AsyncParallelBatchFlow =
     [AsyncParallelBatchFlow, AsyncFlow, BatchFlow, Flow, AsyncNode, Node, BaseNode]"

text \<open>The base classes of each \<^verbatim>\<open>class\<close> statement, and the C3 linearisation that
  Python computes from them: the class, then the merge of the linearisations of its
  bases and the list of the bases, which repeatedly takes the first head that occurs in
  no tail. The table \<open>mro\<close> above is its result (\<open>mro_is_c3\<close> below).\<close>

fun bases :: "cls \<Rightarrow> cls list" where
  "bases BaseNode = []"
| "bases Node = [BaseNode]"
| "bases BatchNode = [Node]"
| "bases Flow = [BaseNode]"
| "bases BatchFlow = [Flow]"
| "bases AsyncNode = [Node]"
| "bases AsyncBatchNode = [AsyncNode, BatchNode]"
| "bases AsyncParallelBatchNode = [AsyncNode, BatchNode]"
| "bases AsyncFlow = [Flow, AsyncNode]"
| "bases AsyncBatchFlow = [AsyncFlow, BatchFlow]"
| "bases AsyncParallelBatchFlow = [AsyncFlow, BatchFlow]"

fun c3_merge :: "nat \<Rightarrow> cls list list \<Rightarrow> cls list option" where
  "c3_merge 0 ls = (if filter (\<lambda>l. l \<noteq> []) ls = [] then Some [] else None)"
| "c3_merge (Suc n) ls =
     (let ls' = filter (\<lambda>l. l \<noteq> []) ls in
      if ls' = [] then Some []
      else (case find (\<lambda>h. list_all (\<lambda>l. h \<notin> set (tl l)) ls') (map hd ls') of
              None \<Rightarrow> None
            | Some h \<Rightarrow>
                map_option (Cons h)
                  (c3_merge n (map (\<lambda>l. if hd l = h then tl l else l) ls'))))"

fun c3_mro :: "nat \<Rightarrow> cls \<Rightarrow> cls list option" where
  "c3_mro 0 k = None"
| "c3_mro (Suc n) k =
     (case those (map (c3_mro n) (bases k)) of
        None \<Rightarrow> None
      | Some ls \<Rightarrow> map_option (Cons k) (c3_merge (Suc (length (concat ls))) (ls @ [bases k])))"

fun defines__run :: "cls \<Rightarrow> bool" where
  "defines__run BaseNode = True"
| "defines__run Flow = True"
| "defines__run BatchFlow = True"
| "defines__run AsyncNode = True"
| "defines__run k = False"

fun defines__exec :: "cls \<Rightarrow> bool" where
  "defines__exec BaseNode = True"
| "defines__exec Node = True"
| "defines__exec BatchNode = True"
| "defines__exec AsyncNode = True"
| "defines__exec AsyncBatchNode = True"
| "defines__exec AsyncParallelBatchNode = True"
| "defines__exec k = False"

definition resolve :: "(cls \<Rightarrow> bool) \<Rightarrow> cls \<Rightarrow> cls" where
  "resolve defines k = (case find defines (mro k) of Some d \<Rightarrow> d | None \<Rightarrow> BaseNode)"

section \<open>Running a node\<close>

text \<open>
  \<^verbatim>\<open>self._exec(prep_res)\<close> as \<^verbatim>\<open>BaseNode._run\<close> calls it. The classes whose
  \<^verbatim>\<open>_exec\<close> is a coroutine function never reach \<^verbatim>\<open>BaseNode._run\<close> (their
  \<^verbatim>\<open>_run\<close> is another one); the call would return a coroutine object without
  running anything, for which a string stands here.
\<close>

definition dispatch__exec :: "addr \<Rightarrow> pyval \<Rightarrow> 'w state \<Rightarrow> (pyval, 'w) res" where
  "dispatch__exec c prep_res s =
     (case resolve defines__exec (base (class_of s c)) of
        BaseNode \<Rightarrow> BaseNode__exec c prep_res s
      | Node \<Rightarrow> Node__exec c prep_res s
      | BatchNode \<Rightarrow> BatchNode__exec c prep_res s
      | _ \<Rightarrow> (Inr (PStr ''<coroutine object>''), s))"

text \<open>\<^verbatim>\<open>BaseNode._run\<close>: prep, then \<^verbatim>\<open>_exec\<close>, then post.\<close>

definition BaseNode__run :: "addr \<Rightarrow> addr \<Rightarrow> 'w state \<Rightarrow> (pyval, 'w) res" where
  "BaseNode__run self shared s =
     (case call_prep self shared s of
        (Inl e, s1) \<Rightarrow> (Inl e, s1)
      | (Inr prep_result, s1) \<Rightarrow>
          (case dispatch__exec self prep_result s1 of
             (Inl e, s2) \<Rightarrow> (Inl e, s2)
           | (Inr exec_result, s2) \<Rightarrow> call_post self shared prep_result exec_result s2))"

text \<open>\<^verbatim>\<open>AsyncNode._run\<close> raises.\<close>

definition AsyncNode__run :: "addr \<Rightarrow> addr \<Rightarrow> 'w state \<Rightarrow> (pyval, 'w) res" where
  "AsyncNode__run self shared s = (Inl (RuntimeError ''Use run_async for AsyncNode.''), s)"

section \<open>The flow interpreter\<close>

text \<open>
  \<^verbatim>\<open>Flow.get_next_node\<close>: \<^verbatim>\<open>successors.get(action or "default")\<close>, and the
  warning when nothing is found in a non-empty successor dict.
\<close>

definition Flow_get_next_node ::
  "addr \<Rightarrow> addr \<Rightarrow> pyval \<Rightarrow> 'w state \<Rightarrow> (addr option, 'w) res" where
  "Flow_get_next_node self current_node action s =
     (let key = py_or action (PStr ''default'') in
      if \<not> hashable key then (Inl (TypeError ''unhashable type''), s)
      else
        (let next_node = map_of (successors s current_node) key in
         (Inr next_node,
          if next_node = None \<and> successors s current_node \<noteq> []
          then warn (FlowEnds action (map fst (successors s current_node))) s
          else s)))"

text \<open>
  The traversal may not terminate (a cyclic graph), so the interpreter carries fuel:
  \<open>None\<close> is "no result within the fuel". The call \<^verbatim>\<open>current_node._run(shared)\<close>
  is dynamically dispatched; the loop takes it as the parameter \<open>run_fn\<close>, which
  \<open>dispatch__run\<close> below ties to the classes.
\<close>

type_synonym 'w run_fn = "addr \<Rightarrow> addr \<Rightarrow> 'w state \<Rightarrow> (pyval, 'w) res option"

fun Flow__orch_while ::
  "'w run_fn \<Rightarrow> nat \<Rightarrow> addr \<Rightarrow> addr option \<Rightarrow> addr \<Rightarrow> addr \<Rightarrow> pyval \<Rightarrow> 'w state
     \<Rightarrow> (pyval, 'w) res option" where
  "Flow__orch_while run_fn n self None node_params shared last_action s =
     Some (Inr last_action, s)"
| "Flow__orch_while run_fn 0 self (Some c) node_params shared last_action s = None"
| "Flow__orch_while run_fn (Suc n) self (Some c) node_params shared last_action s =
     (case run_fn c shared (BaseNode_set_params c node_params s) of
        None \<Rightarrow> None
      | Some (Inl e, s2) \<Rightarrow> Some (Inl e, s2)
      | Some (Inr a, s2) \<Rightarrow>
          (case Flow_get_next_node self c a s2 of
             (Inl e, s3) \<Rightarrow> Some (Inl e, s3)
           | (Inr nxt, s3) \<Rightarrow>
               (case copy_copy nxt s3 of
                  (c', s4) \<Rightarrow> Flow__orch_while run_fn n self c' node_params shared a s4)))"

text \<open>\<^verbatim>\<open>Flow._orch(shared, params)\<close>; \<^verbatim>\<open>params or {**self.params}\<close> takes the
  given dict when it is not empty, and a new dict with the items of the flow's own
  otherwise.\<close>

definition Flow__orch ::
  "'w run_fn \<Rightarrow> nat \<Rightarrow> addr \<Rightarrow> addr \<Rightarrow> addr option \<Rightarrow> 'w state \<Rightarrow> (pyval, 'w) res option" where
  "Flow__orch run_fn n self shared params s =
     (case copy_copy (start_node_f s self) s of
        (current_node, s1) \<Rightarrow>
          (case (case params of
                   Some d \<Rightarrow>
                     if dicts (usr s1) d \<noteq> [] then (d, s1)
                     else new_dict (dicts (usr s1) (params_f (usr s1) self)) s1
                 | None \<Rightarrow> new_dict (dicts (usr s1) (params_f (usr s1) self)) s1) of
             (node_params, s2) \<Rightarrow>
               Flow__orch_while run_fn n self current_node node_params shared PNone s2))"

text \<open>\<^verbatim>\<open>Flow._run\<close>: the flow's own prep, the traversal, the flow's own post.\<close>

definition Flow__run ::
  "'w run_fn \<Rightarrow> nat \<Rightarrow> addr \<Rightarrow> addr \<Rightarrow> 'w state \<Rightarrow> (pyval, 'w) res option" where
  "Flow__run run_fn n self shared s =
     (case call_prep self shared s of
        (Inl e, s1) \<Rightarrow> Some (Inl e, s1)
      | (Inr prep_result, s1) \<Rightarrow>
          (case Flow__orch run_fn n self shared None s1 of
             None \<Rightarrow> None
           | Some (Inl e, s2) \<Rightarrow> Some (Inl e, s2)
           | Some (Inr orch_result, s2) \<Rightarrow>
               Some (call_post self shared prep_result orch_result s2)))"

text \<open>
  \<^verbatim>\<open>BatchFlow._run\<close>: the loop over \<^verbatim>\<open>self.prep(shared) or []\<close>; each item must
  be a mapping for \<^verbatim>\<open>{**self.params, **batch_params}\<close>.
\<close>

fun BatchFlow__run_for ::
  "'w run_fn \<Rightarrow> nat \<Rightarrow> addr \<Rightarrow> addr \<Rightarrow> pyval list \<Rightarrow> 'w state \<Rightarrow> (unit, 'w) res option" where
  "BatchFlow__run_for run_fn n self shared [] s = Some (Inr (), s)"
| "BatchFlow__run_for run_fn n self shared (batch_params # rest) s =
     (case batch_params of
        PDict kvs \<Rightarrow>
          (case new_dict (dict_merge (dicts (usr s) (params_f (usr s) self)) kvs) s of
             (combined_params, s1) \<Rightarrow>
               (case Flow__orch run_fn n self shared (Some combined_params) s1 of
                  None \<Rightarrow> None
                | Some (Inl e, s2) \<Rightarrow> Some (Inl e, s2)
                | Some (Inr a, s2) \<Rightarrow> BatchFlow__run_for run_fn n self shared rest s2))
      | _ \<Rightarrow> Some (Inl (TypeError ''argument after ** must be a mapping''), s))"

definition BatchFlow__run ::
  "'w run_fn \<Rightarrow> nat \<Rightarrow> addr \<Rightarrow> addr \<Rightarrow> 'w state \<Rightarrow> (pyval, 'w) res option" where
  "BatchFlow__run run_fn n self shared s =
     (case call_prep self shared s of
        (Inl e, s1) \<Rightarrow> Some (Inl e, s1)
      | (Inr p, s1) \<Rightarrow>
          (let prep_results_list = py_or p (PList []) in
           case py_iter prep_results_list of
             Inl e \<Rightarrow> Some (Inl e, s1)
           | Inr items \<Rightarrow>
               (case BatchFlow__run_for run_fn n self shared items s1 of
                  None \<Rightarrow> None
                | Some (Inl e, s2) \<Rightarrow> Some (Inl e, s2)
                | Some (Inr u, s2) \<Rightarrow>
                    Some (call_post self shared prep_results_list PNone s2))))"

text \<open>
  \<^verbatim>\<open>self._run(shared)\<close> on an object of any class: the \<^verbatim>\<open>_run\<close> that the
  method resolution order selects. Only the flows use fuel.
\<close>

fun dispatch__run :: "nat \<Rightarrow> addr \<Rightarrow> addr \<Rightarrow> 'w state \<Rightarrow> (pyval, 'w) res option" where
  "dispatch__run 0 self shared s =
     (case resolve defines__run (base (class_of s self)) of
        Flow \<Rightarrow> None
      | BatchFlow \<Rightarrow> None
      | AsyncNode \<Rightarrow> Some (AsyncNode__run self shared s)
      | _ \<Rightarrow> Some (BaseNode__run self shared s))"
| "dispatch__run (Suc n) self shared s =
     (case resolve defines__run (base (class_of s self)) of
        Flow \<Rightarrow> Flow__run (dispatch__run n) n self shared s
      | BatchFlow \<Rightarrow> BatchFlow__run (dispatch__run n) n self shared s
      | AsyncNode \<Rightarrow> Some (AsyncNode__run self shared s)
      | _ \<Rightarrow> Some (BaseNode__run self shared s))"

text \<open>\<^verbatim>\<open>BaseNode.run\<close>, the public entry point of every class.\<close>

definition BaseNode_run :: "nat \<Rightarrow> addr \<Rightarrow> addr \<Rightarrow> 'w state \<Rightarrow> (pyval, 'w) res option" where
  "BaseNode_run n self shared s =
     dispatch__run n self shared
       (if successors s self \<noteq> [] then warn WontRunSuccessors s else s)"

section \<open>Reading the event log\<close>

text \<open>The outcomes of the execute calls in a stretch of the log, in order, and the
  fallback calls with their arguments and outcome.\<close>

fun exec_outcome :: "event \<Rightarrow> (exn + pyval) option" where
  "exec_outcome (Call v (Exec p) r) = Some r"
| "exec_outcome (Call v (ExecAsync p) r) = Some r"
| "exec_outcome e = None"

fun fallback_call :: "event \<Rightarrow> (pyval \<times> exn \<times> (exn + pyval)) option" where
  "fallback_call (Call v (Fallback p e) r) = Some (p, e, r)"
| "fallback_call (Call v (FallbackAsync p e) r) = Some (p, e, r)"
| "fallback_call e = None"

definition attempts :: "event list \<Rightarrow> (exn + pyval) list" where
  "attempts evs = List.map_filter exec_outcome evs"

definition fallbacks :: "event list \<Rightarrow> (pyval \<times> exn \<times> (exn + pyval)) list" where
  "fallbacks evs = List.map_filter fallback_call evs"

definition new_events :: "'w state \<Rightarrow> 'w state \<Rightarrow> event list" where
  "new_events s s' = drop (length (trace s)) (trace s')"

text \<open>
  The attempt bound of one visit with budget \<open>N\<close>, prepare value \<open>p\<close> and result
  \<open>res\<close>: at most \<open>N\<close> execute calls; at most one fallback call; a fallback call only
  after \<open>N\<close> execute calls that all raised; and when the \<open>N\<close>-th execute call raises
  \<open>e\<close>, exactly one fallback call, with \<open>p\<close> and \<open>e\<close>, whose outcome is the result.
\<close>

definition attempt_bound :: "nat \<Rightarrow> pyval \<Rightarrow> exn + pyval \<Rightarrow> event list \<Rightarrow> bool" where
  "attempt_bound N p res evs \<longleftrightarrow>
     length (attempts evs) \<le> N \<and>
     length (fallbacks evs) \<le> 1 \<and>
     (fallbacks evs \<noteq> [] \<longrightarrow> length (attempts evs) = N \<and> (\<forall>r \<in> set (attempts evs). isl r)) \<and>
     (\<forall>e. length (attempts evs) = N \<and> attempts evs \<noteq> [] \<and> last (attempts evs) = Inl e
          \<longrightarrow> fallbacks evs = [(p, e, res)])"

section \<open>Example programs and observations\<close>

text \<open>The module's class \<open>k\<close> itself, with the hooks it inherits.\<close>

definition plain :: "cls \<Rightarrow> 'w pyclass" where
  "plain k =
     \<lparr>base = k,
      prep = BaseNode_prep,
      exec = BaseNode_exec,
      exec_fallback = Node_exec_fallback,
      post = (if Flow \<in> set (mro k) then Flow_post else BaseNode_post),
      exec_async = AsyncNode_exec_async,
      exec_fallback_async = AsyncNode_exec_fallback_async\<rparr>"

text \<open>The state before any object is created (address 0 is never allocated).\<close>

definition init_state :: "unit state" where
  "init_state =
     \<lparr>class_of = (\<lambda>a. plain BaseNode),
      max_retries_f = (\<lambda>a. 1),
      wait_f = (\<lambda>a. 0),
      cur_retry_f = (\<lambda>a. 0),
      successors_f = (\<lambda>a. 0),
      succ_dicts = (\<lambda>a. []),
      start_node_f = (\<lambda>a. None),
      usr = \<lparr>params_f = (\<lambda>a. 0), dicts = (\<lambda>a. []), fresh = 1, world = ()\<rparr>,
      trace = []\<rparr>"

text \<open>A node whose execute always raises and whose fallback returns a sentinel,
  created with \<^verbatim>\<open>max_retries=2, wait=0\<close>.\<close>

definition failing_class :: "cls \<Rightarrow> unit pyclass" where
  "failing_class k =
     (plain k)
       \<lparr>exec := (\<lambda>v p u. (Inl (UserError (PStr ''boom'')), u)),
        exec_fallback := (\<lambda>v p e u. (Inr (PStr ''FALLBACK''), u)),
        exec_async := (\<lambda>v p u. (Inl (UserError (PStr ''boom'')), u)),
        exec_fallback_async := (\<lambda>v p e u. (Inr (PStr ''FALLBACK''), u))\<rparr>"

definition retry_state :: "unit state" where
  "retry_state = snd (new_object (failing_class Node) 2 0 None init_state)"

text \<open>The value of \<^verbatim>\<open>self.cur_retry\<close> that user code reads at each execute call.\<close>

fun exec_view :: "event \<Rightarrow> int option" where
  "exec_view (Call v (Exec p) r) = Some (cur_retry v)"
| "exec_view (Call v (ExecAsync p) r) = Some (cur_retry v)"
| "exec_view e = None"

definition attempt_indices :: "event list \<Rightarrow> int list" where
  "attempt_indices evs = List.map_filter exec_view evs"

text \<open>The state in which item \<open>i\<close> of a batch is processed: after the items before it.\<close>

fun item_state :: "addr \<Rightarrow> pyval list \<Rightarrow> nat \<Rightarrow> 'w state \<Rightarrow> 'w state" where
  "item_state c items 0 s = s"
| "item_state c [] (Suc i) s = s"
| "item_state c (x # xs) (Suc i) s = item_state c xs i (snd (Node__exec c x s))"

text \<open>The always-failing node as an \<^verbatim>\<open>AsyncNode\<close>, and as a \<^verbatim>\<open>Node\<close> created with
  \<^verbatim>\<open>max_retries=0\<close> whose post returns the execute result it receives.\<close>

definition async_retry_state :: "unit state" where
  "async_retry_state = snd (new_object (failing_class AsyncNode) 2 0 None init_state)"

definition zero_retry_state :: "unit state" where
  "zero_retry_state =
     snd (new_object ((failing_class Node)\<lparr>post := Flow_post\<rparr>) 0 0 None init_state)"

text \<open>A batch node that doubles each integer item, created with the default
  \<^verbatim>\<open>max_retries=1\<close>.\<close>

definition doubling_class :: "cls \<Rightarrow> unit pyclass" where
  "doubling_class k =
     (plain k)
       \<lparr>exec := (\<lambda>v p u. case p of PInt i \<Rightarrow> (Inr (PInt (2 * i)), u)
                           | _ \<Rightarrow> (Inl (UserError p), u))\<rparr>"

definition batch_state :: "unit state" where
  "batch_state = snd (new_object (doubling_class BatchNode) 1 0 None init_state)"

text \<open>Two plain nodes, at addresses 1 and 4; and the same with the edge
  \<^verbatim>\<open>n1 - "left" >> n4\<close> added.\<close>

definition two_nodes :: "unit state" where
  "two_nodes =
     snd (new_object (plain Node) 1 0 None (snd (new_object (plain Node) 1 0 None init_state)))"

definition wired_nodes :: "unit state" where
  "wired_nodes = snd (sub_then_rshift 1 (PStr ''left'') 4 two_nodes)"

text \<open>\<^verbatim>\<open>AsyncFlow(start_node=Node())\<close>: the node at address 1, the flow at address 4;
  and a lone \<^verbatim>\<open>AsyncNode()\<close> at address 1.\<close>

definition async_flow_state :: "unit state" where
  "async_flow_state =
     snd (new_object (plain AsyncFlow) 1 0 (Some 1)
            (snd (new_object (plain Node) 1 0 None init_state)))"

definition async_node_state :: "unit state" where
  "async_node_state = snd (new_object (plain AsyncNode) 1 0 None init_state)"

text \<open>
  The linear flow: the shared dict \<^verbatim>\<open>{"log": []}\<close> at address 1; the nodes A, B, C
  at 2, 5, 8 with \<^verbatim>\<open>A >> B\<close>, \<^verbatim>\<open>B >> C\<close>; \<^verbatim>\<open>Flow(start_node=A)\<close> at 11.
  Execute returns the node's name; post appends the execute result to the log of the
  shared dict and returns \<^verbatim>\<open>"default"\<close>.
\<close>

definition log_items :: "(string \<times> pyval) list \<Rightarrow> pyval list" where
  "log_items kvs = (case map_of kvs ''log'' of Some (PList xs) \<Rightarrow> xs | _ \<Rightarrow> [])"

definition logging_class :: "string \<Rightarrow> unit pyclass" where
  "logging_class name =
     (plain Node)
       \<lparr>exec := (\<lambda>v p u. (Inr (PStr name), u)),
        post := (\<lambda>v shared p r u.
                  (Inr (PStr ''default''),
                   u\<lparr>dicts := (dicts u)
                        (shared := dict_set (dicts u shared) ''log''
                                     (PList (log_items (dicts u shared) @ [r])))\<rparr>))\<rparr>"

definition linear_flow_state :: "unit state" where
  "linear_flow_state =
     snd (BaseNode_rshift 5 8
       (snd (BaseNode_rshift 2 5
         (snd (new_object (plain Flow) 1 0 (Some 2)
           (snd (new_object (logging_class ''C'') 1 0 None
             (snd (new_object (logging_class ''B'') 1 0 None
               (snd (new_object (logging_class ''A'') 1 0 None
                 (snd (new_dict [(''log'', PList [])] init_state)))))))))))))"

text \<open>
  The traversals of a batch flow over the parameter maps \<open>Bs\<close>, as a chain of states:
  traversal \<open>i\<close> starts in state \<open>ss ! i\<close>, is \<^verbatim>\<open>_orch\<close> with a new dict holding
  \<^verbatim>\<open>{**self.params, **Bs[i]}\<close>, returns, and leaves state \<open>ss ! Suc i\<close>.
\<close>

definition batch_traversals ::
  "'w run_fn \<Rightarrow> nat \<Rightarrow> addr \<Rightarrow> addr \<Rightarrow> (string \<times> pyval) list list \<Rightarrow> 'w state list \<Rightarrow> bool" where
  "batch_traversals run_fn n f sh Bs ss \<longleftrightarrow>
     length ss = Suc (length Bs) \<and>
     (\<forall>i<length Bs. \<exists>a.
        Flow__orch run_fn n f sh (Some (fresh (usr (ss ! i))))
          (snd (new_dict (dict_merge (dicts (usr (ss ! i)) (params_f (usr (ss ! i)) f)) (Bs ! i))
                  (ss ! i))) = Some (Inr a, ss ! Suc i))"

text \<open>
  The batch flow of the spec's scenario: the shared dict \<^verbatim>\<open>{"log": []}\<close> at address
  1; a node at 2 whose prep reads \<^verbatim>\<open>self.params["i"]\<close>, whose exec returns it and
  whose post appends it to the log; a \<^verbatim>\<open>BatchFlow\<close> at 5 whose prep returns the three
  maps \<^verbatim>\<open>{"i": 0}, {"i": 1}, {"i": 2}\<close> and whose own params are
  \<^verbatim>\<open>{"i": 99, "k": 7}\<close> (the dict at 8).
\<close>

definition batch_maps :: "(string \<times> pyval) list list" where
  "batch_maps = [[(''i'', PInt 0)], [(''i'', PInt 1)], [(''i'', PInt 2)]]"

definition param_reader_class :: "unit pyclass" where
  "param_reader_class =
     (logging_class [])
       \<lparr>prep := (\<lambda>v shared u.
                  (Inr (case map_of (dicts u (params_f u (self_id v))) ''i'' of
                          Some x \<Rightarrow> x | None \<Rightarrow> PNone), u)),
        exec := (\<lambda>v p u. (Inr p, u))\<rparr>"

definition batch_flow_class :: "unit pyclass" where
  "batch_flow_class =
     (plain BatchFlow)\<lparr>prep := (\<lambda>v shared u. (Inr (PList (map PDict batch_maps)), u))\<rparr>"

definition batch_flow_state :: "unit state" where
  "batch_flow_state =
     (case new_dict [(''i'', PInt 99), (''k'', PInt 7)]
             (snd (new_object batch_flow_class 1 0 (Some 2)
               (snd (new_object param_reader_class 1 0 None
                 (snd (new_dict [(''log'', PList [])] init_state)))))) of
        (d, s) \<Rightarrow> BaseNode_set_params 5 d s)"



text \<open>The prep calls of a log: on which object, with which outcome.\<close>

fun prep_outcome :: "event \<Rightarrow> (addr \<times> (exn + pyval)) option" where
  "prep_outcome (Call v (Prep sh) r) = Some (self_id v, r)"
| "prep_outcome e = None"

definition prep_outcomes :: "event list \<Rightarrow> (addr \<times> (exn + pyval)) list" where
  "prep_outcomes evs = List.map_filter prep_outcome evs"

text \<open>
  A node that is visited twice: its prep returns the items of \<^verbatim>\<open>self.params\<close> as it
  finds them; its post returns \<^verbatim>\<open>"again"\<close> at the first visit (and notes the visit
  in the shared dict) and \<^verbatim>\<open>None\<close> at the second; the execute hook is a parameter.
  The shared dict is at address 1, the node at 2 with the edge \<^verbatim>\<open>node - "again" >> node\<close>,
  \<^verbatim>\<open>Flow(start_node=node)\<close> at 5.
\<close>

definition revisit_class :: "(selfv \<Rightarrow> pyval \<Rightarrow> unit ustate \<Rightarrow> unit hook_res) \<Rightarrow> unit pyclass" where
  "revisit_class exec_hook =
     (plain Node)
       \<lparr>prep := (\<lambda>v shared u. (Inr (PDict (dicts u (params_f u (self_id v)))), u)),
        exec := exec_hook,
        post := (\<lambda>v shared p r u.
                  if map_of (dicts u shared) ''visited'' = None
                  then (Inr (PStr ''again''),
                        u\<lparr>dicts := (dicts u)
                             (shared := dict_set (dicts u shared) ''visited'' (PInt 1))\<rparr>)
                  else (Inr PNone, u))\<rparr>"

definition revisit_state ::
  "(selfv \<Rightarrow> pyval \<Rightarrow> unit ustate \<Rightarrow> unit hook_res) \<Rightarrow> unit state" where
  "revisit_state exec_hook =
     snd (sub_then_rshift 2 (PStr ''again'') 2
       (snd (new_object (plain Flow) 1 0 (Some 2)
         (snd (new_object (revisit_class exec_hook) 1 0 None
           (snd (new_dict [] init_state)))))))"


definition exec_rebinds :: "selfv \<Rightarrow> pyval \<Rightarrow> unit ustate \<Rightarrow> unit hook_res" where
  "exec_rebinds v p u =
     (Inr PNone,
      u\<lparr>params_f := (params_f u)(self_id v := fresh u),
        dicts := (dicts u)(fresh u := [(''seen'', PInt 1)]),
        fresh := Suc (fresh u)\<rparr>)"



section \<open>Properties of the retry engine\<close>

lemma attempts_simps [simp]:
  "attempts [] = []"
  "attempts (Call v (Exec p) r # evs) = r # attempts evs"
  "attempts (Call v (ExecAsync p) r # evs) = r # attempts evs"
  "attempts (Call v (Fallback p e) r # evs) = attempts evs"
  "attempts (Call v (FallbackAsync p e) r # evs) = attempts evs"
  "attempts (Sleep w # evs) = attempts evs"
  "attempts (AsyncSleep w # evs) = attempts evs"
  by (simp_all add: attempts_def List.map_filter_simps)

lemma fallbacks_simps [simp]:
  "fallbacks [] = []"
  "fallbacks (Call v (Exec p) r # evs) = fallbacks evs"
  "fallbacks (Call v (ExecAsync p) r # evs) = fallbacks evs"
  "fallbacks (Call v (Fallback p e) r # evs) = (p, e, r) # fallbacks evs"
  "fallbacks (Call v (FallbackAsync p e) r # evs) = (p, e, r) # fallbacks evs"
  "fallbacks (Sleep w # evs) = fallbacks evs"
  "fallbacks (AsyncSleep w # evs) = fallbacks evs"
  by (simp_all add: fallbacks_def List.map_filter_simps)

lemma call_exec_shape:
  "call_exec c p s = (r, s') \<Longrightarrow>
     trace s' = trace s @ [Call (view s c) (Exec p) r] \<and>
     max_retries_f s' = max_retries_f s \<and> wait_f s' = wait_f s \<and>
     cur_retry_f s' = cur_retry_f s \<and> class_of s' = class_of s"
  by (auto simp: call_exec_def split: prod.splits)

lemma call_exec_fallback_shape:
  "call_exec_fallback c p e s = (r, s') \<Longrightarrow>
     trace s' = trace s @ [Call (view s c) (Fallback p e) r] \<and>
     max_retries_f s' = max_retries_f s \<and> wait_f s' = wait_f s \<and>
     cur_retry_f s' = cur_retry_f s \<and> class_of s' = class_of s"
  by (auto simp: call_exec_fallback_def split: prod.splits)

lemma call_exec_async_shape:
  "call_exec_async c p s = (r, s') \<Longrightarrow>
     trace s' = trace s @ [Call (view s c) (ExecAsync p) r] \<and>
     max_retries_f s' = max_retries_f s \<and> wait_f s' = wait_f s \<and>
     cur_retry_f s' = cur_retry_f s \<and> class_of s' = class_of s"
  by (auto simp: call_exec_async_def split: prod.splits)

lemma call_exec_fallback_async_shape:
  "call_exec_fallback_async c p e s = (r, s') \<Longrightarrow>
     trace s' = trace s @ [Call (view s c) (FallbackAsync p e) r] \<and>
     max_retries_f s' = max_retries_f s \<and> wait_f s' = wait_f s \<and>
     cur_retry_f s' = cur_retry_f s \<and> class_of s' = class_of s"
  by (auto simp: call_exec_fallback_async_def split: prod.splits)

lemma bound_success: "0 < n \<Longrightarrow> attempt_bound n p (Inr v) [Call w (Exec p) (Inr v)]"
  by (simp add: attempt_bound_def)

lemma bound_last: "attempt_bound (Suc 0) p r [Call w (Exec p) (Inl e), Call w' (Fallback p e) r]"
  by (simp add: attempt_bound_def)

lemma bound_step:
  assumes "attempt_bound n p res evs" "0 < n"
  shows "attempt_bound (Suc n) p res (Call w (Exec p) (Inl e) # evs)"
    and "attempt_bound (Suc n) p res (Call w (Exec p) (Inl e) # Sleep d # evs)"
  using assms by (auto simp: attempt_bound_def)

lemma bound_success_async: "0 < n \<Longrightarrow> attempt_bound n p (Inr v) [Call w (ExecAsync p) (Inr v)]"
  by (simp add: attempt_bound_def)

lemma bound_last_async:
  "attempt_bound (Suc 0) p r [Call w (ExecAsync p) (Inl e), Call w' (FallbackAsync p e) r]"
  by (simp add: attempt_bound_def)

lemma bound_step_async:
  assumes "attempt_bound n p res evs" "0 < n"
  shows "attempt_bound (Suc n) p res (Call w (ExecAsync p) (Inl e) # evs)"
    and "attempt_bound (Suc n) p res (Call w (ExecAsync p) (Inl e) # AsyncSleep d # evs)"
  using assms by (auto simp: attempt_bound_def)

lemma Node__exec_for_bound:
  "max_retries_f s c = int N \<Longrightarrow> k \<le> N \<Longrightarrow> Node__exec_for (map int [k..<N]) c p s = (res, s') \<Longrightarrow>
     \<exists>evs. trace s' = trace s @ evs \<and> attempt_bound (N - k) p res evs"
proof (induction "N - k" arbitrary: k s)
  case 0
  then show ?case by (simp add: attempt_bound_def)
next
  case (Suc n)
  then have kN: "k < N" and n: "n = N - Suc k" by auto
  then have up: "[k..<N] = k # [Suc k..<N]" by (simp add: upt_conv_Cons)
  let ?s1 = "s\<lparr>cur_retry_f := (cur_retry_f s)(c := int k)\<rparr>"
  obtain r s2 where ce: "call_exec c p ?s1 = (r, s2)" by (cases "call_exec c p ?s1")
  note sh = call_exec_shape [OF ce]
  show ?case
  proof (cases r)
    case (Inr v)
    with Suc.prems ce up sh kN show ?thesis
      by (auto intro!: bound_success)
  next
    case (Inl e)
    show ?thesis
    proof (cases "Suc k = N")
      case True
      with Suc.prems ce up sh Inl obtain
        fb: "call_exec_fallback c p e s2 = (res, s')" by auto
      from call_exec_fallback_shape [OF fb] sh Inl have
        "trace s' = trace s @ [Call (view ?s1 c) (Exec p) (Inl e), Call (view s2 c) (Fallback p e) res]"
        by simp
      moreover have "N - k = Suc 0" using True by simp
      ultimately show ?thesis using bound_last by metis
    next
      case False
      let ?s3 = "if wait_f s2 c > 0 then sleep (wait_f s2 c) s2 else s2"
      from False Suc.prems ce up sh Inl kN have
        rec: "Node__exec_for (map int [Suc k..<N]) c p ?s3 = (res, s')" by auto
      have m: "max_retries_f ?s3 c = int N" using sh Suc.prems by (simp add: sleep_def)
      from Suc.hyps(1) [OF n m _ rec] kN obtain evs where
        evs: "trace s' = trace ?s3 @ evs" "attempt_bound (N - Suc k) p res evs" by auto
      have pos: "0 < N - Suc k" using False kN by simp
      have SN: "N - k = Suc (N - Suc k)" using kN by simp
      show ?thesis
      proof (cases "wait_f s2 c > 0")
        case True
        with evs sh Inl have "trace s' = trace s @ (Call (view ?s1 c) (Exec p) (Inl e) # Sleep (wait_f s2 c) # evs)"
          by (simp add: sleep_def)
        with bound_step(2) [OF evs(2) pos] SN show ?thesis by metis
      next
        case False
        with evs sh Inl have "trace s' = trace s @ (Call (view ?s1 c) (Exec p) (Inl e) # evs)"
          by simp
        with bound_step(1) [OF evs(2) pos] SN show ?thesis by metis
      qed
    qed
  qed
qed

lemma AsyncNode__exec_for_bound:
  "max_retries_f s c = int N \<Longrightarrow> k \<le> N \<Longrightarrow>
   AsyncNode__exec_for (map int [k..<N]) c p s = (res, s') \<Longrightarrow>
     \<exists>evs. trace s' = trace s @ evs \<and> attempt_bound (N - k) p res evs"
proof (induction "N - k" arbitrary: k s)
  case 0
  then show ?case by (simp add: attempt_bound_def)
next
  case (Suc n)
  then have kN: "k < N" and n: "n = N - Suc k" by auto
  then have up: "[k..<N] = k # [Suc k..<N]" by (simp add: upt_conv_Cons)
  obtain r s2 where ce: "call_exec_async c p s = (r, s2)" by (cases "call_exec_async c p s")
  note sh = call_exec_async_shape [OF ce]
  show ?case
  proof (cases r)
    case (Inr v)
    with Suc.prems ce up sh kN show ?thesis
      by (auto intro!: bound_success_async)
  next
    case (Inl e)
    show ?thesis
    proof (cases "Suc k = N")
      case True
      with Suc.prems ce up sh Inl obtain
        fb: "call_exec_fallback_async c p e s2 = (res, s')" by auto
      from call_exec_fallback_async_shape [OF fb] sh Inl have
        "trace s' = trace s @
           [Call (view s c) (ExecAsync p) (Inl e), Call (view s2 c) (FallbackAsync p e) res]"
        by simp
      moreover have "N - k = Suc 0" using True by simp
      ultimately show ?thesis using bound_last_async by metis
    next
      case False
      let ?s3 = "if wait_f s2 c > 0 then async_sleep (wait_f s2 c) s2 else s2"
      from False Suc.prems ce up sh Inl kN have
        rec: "AsyncNode__exec_for (map int [Suc k..<N]) c p ?s3 = (res, s')" by auto
      have m: "max_retries_f ?s3 c = int N" using sh Suc.prems by (simp add: async_sleep_def)
      from Suc.hyps(1) [OF n m _ rec] kN obtain evs where
        evs: "trace s' = trace ?s3 @ evs" "attempt_bound (N - Suc k) p res evs" by auto
      have pos: "0 < N - Suc k" using False kN by simp
      have SN: "N - k = Suc (N - Suc k)" using kN by simp
      show ?thesis
      proof (cases "wait_f s2 c > 0")
        case True
        with evs sh Inl have
          "trace s' = trace s @ (Call (view s c) (ExecAsync p) (Inl e) # AsyncSleep (wait_f s2 c) # evs)"
          by (simp add: async_sleep_def)
        with bound_step_async(2) [OF evs(2) pos] SN show ?thesis by metis
      next
        case False
        with evs sh Inl have "trace s' = trace s @ (Call (view s c) (ExecAsync p) (Inl e) # evs)"
          by simp
        with bound_step_async(1) [OF evs(2) pos] SN show ?thesis by metis
      qed
    qed
  qed
qed

lemma new_events_append: "trace s' = trace s @ evs \<Longrightarrow> new_events s s' = evs"
  by (simp add: new_events_def)

lemma retry_state_simps:
  "max_retries_f retry_state 1 = 2"
  by (simp add: retry_state_def new_object_def init_state_def Let_def)

lemma upt2: "[0..<2] = [0, Suc 0]"
  by (simp add: upt_conv_Cons)

lemma retry_eval:
  "fst (Node__exec 1 PNone retry_state) = Inr (PStr ''FALLBACK'')"
  "attempts (new_events retry_state (snd (Node__exec 1 PNone retry_state))) =
     [Inl (UserError (PStr ''boom'')), Inl (UserError (PStr ''boom''))]"
  "fst (AsyncNode__exec 1 PNone retry_state) = Inr (PStr ''FALLBACK'')"
  by (simp_all add: Node__exec_def AsyncNode__exec_def py_range_def upt2 retry_state_def new_object_def init_state_def
        Let_def call_exec_def call_exec_fallback_def call_exec_async_def call_exec_fallback_async_def
        view_def failing_class_def plain_def new_events_def)

text \<open>
  C1: for a node with maximum attempt count \<open>N\<close>, a visit calls execute at most \<open>N\<close>
  times and the fallback at most once, the fallback only after \<open>N\<close> attempts that all
  raised; when the \<open>N\<close>-th attempt raises, the fallback is called exactly once with the
  prepare value and that exception, and its outcome is the result of the visit's execute
  phase. This holds for \<^verbatim>\<open>Node._exec\<close> and for \<^verbatim>\<open>AsyncNode._exec\<close>.
\<close>

theorem C1_retry_attempt_bound:
  assumes "max_retries_f s c = int N"
  shows "trace (snd (Node__exec c p s)) = trace s @ new_events s (snd (Node__exec c p s)) \<and>
         attempt_bound N p (fst (Node__exec c p s)) (new_events s (snd (Node__exec c p s))) \<and>
         trace (snd (AsyncNode__exec c p s)) =
           trace s @ new_events s (snd (AsyncNode__exec c p s)) \<and>
         attempt_bound N p (fst (AsyncNode__exec c p s))
           (new_events s (snd (AsyncNode__exec c p s)))"
proof -
  have r: "py_range (max_retries_f s c) = map int [0..<N]"
    using assms by (simp add: py_range_def)
  obtain res s' where a: "Node__exec c p s = (res, s')" by (cases "Node__exec c p s")
  then have "Node__exec_for (map int [0..<N]) c p s = (res, s')"
    by (simp add: Node__exec_def r)
  from Node__exec_for_bound [OF assms _ this] obtain evs where
    e1: "trace s' = trace s @ evs" "attempt_bound N p res evs" by auto
  obtain res2 s2 where b: "AsyncNode__exec c p s = (res2, s2)" by (cases "AsyncNode__exec c p s")
  then have "AsyncNode__exec_for (map int [0..<N]) c p s = (res2, s2)"
    by (simp add: AsyncNode__exec_def r)
  from AsyncNode__exec_for_bound [OF assms _ this] obtain evs2 where
    e2: "trace s2 = trace s @ evs2" "attempt_bound N p res2 evs2" by auto
  show ?thesis using a b e1 e2 by (simp add: new_events_append)
qed

theorem C1_retry_attempt_bound_witness:
  "attempt_bound 2 PNone (fst (Node__exec 1 PNone retry_state))
     (new_events retry_state (snd (Node__exec 1 PNone retry_state))) \<and>
   attempt_bound 2 PNone (fst (AsyncNode__exec 1 PNone retry_state))
     (new_events retry_state (snd (AsyncNode__exec 1 PNone retry_state))) \<and>
   fst (Node__exec 1 PNone retry_state) = Inr (PStr ''FALLBACK'') \<and>
   attempts (new_events retry_state (snd (Node__exec 1 PNone retry_state))) =
     [Inl (UserError (PStr ''boom'')), Inl (UserError (PStr ''boom''))]"
  using C1_retry_attempt_bound [of retry_state 1 2 PNone] retry_state_simps retry_eval
  by simp

subsection \<open>No attempt at all\<close>

lemma call_prep_shape:
  "call_prep c sh s = (r, s') \<Longrightarrow>
     trace s' = trace s @ [Call (view s c) (Prep sh) r] \<and>
     max_retries_f s' = max_retries_f s \<and> wait_f s' = wait_f s \<and>
     cur_retry_f s' = cur_retry_f s \<and> class_of s' = class_of s"
  by (auto simp: call_prep_def split: prod.splits)

lemma call_post_shape:
  "call_post c sh p x s = (r, s') \<Longrightarrow>
     trace s' = trace s @ [Call (view s c) (Post sh p x) r] \<and>
     max_retries_f s' = max_retries_f s \<and> wait_f s' = wait_f s \<and>
     cur_retry_f s' = cur_retry_f s \<and> class_of s' = class_of s"
  by (auto simp: call_post_def split: prod.splits)

lemma attempts_post [simp]:
  "attempts (Call v (Prep sh) r # evs) = attempts evs"
  "attempts (Call v (Post sh p x) r # evs) = attempts evs"
  "attempts (Warn w # evs) = attempts evs"
  "fallbacks (Call v (Prep sh) r # evs) = fallbacks evs"
  "fallbacks (Call v (Post sh p x) r # evs) = fallbacks evs"
  "fallbacks (Warn w # evs) = fallbacks evs"
  by (simp_all add: attempts_def fallbacks_def List.map_filter_simps)

lemma Node__exec_zero: "max_retries_f s c \<le> 0 \<Longrightarrow> Node__exec c p s = (Inr PNone, s)"
  by (simp add: Node__exec_def py_range_def)

text \<open>
  C10: the attempt count is not checked to be at least 1. For a node created with
  \<^verbatim>\<open>max_retries = 0\<close> the retry wrapper calls neither execute nor the fallback and
  yields \<^verbatim>\<open>None\<close>, which post then receives as the execute result.
\<close>

theorem C10_zero_retries:
  assumes "max_retries_f s c = 0"
    and "resolve defines__exec (base (class_of s c)) = Node"
    and "call_prep c shared s = (Inr p, s1)"
  shows "Node__exec c p s1 = (Inr PNone, s1) \<and>
         BaseNode__run c shared s = call_post c shared p PNone s1 \<and>
         new_events s (snd (BaseNode__run c shared s)) =
           [Call (view s c) (Prep shared) (Inr p),
            Call (view s1 c) (Post shared p PNone) (fst (BaseNode__run c shared s))]"
proof -
  note sh = call_prep_shape [OF assms(3)]
  have z: "Node__exec c p s1 = (Inr PNone, s1)"
    using assms(1) sh by (simp add: Node__exec_zero)
  have d: "dispatch__exec c p s1 = (Inr PNone, s1)"
    using assms(2) sh z by (simp add: dispatch__exec_def)
  have r: "BaseNode__run c shared s = call_post c shared p PNone s1"
    using assms(3) d by (simp add: BaseNode__run_def)
  obtain x s2 where cp: "call_post c shared p PNone s1 = (x, s2)"
    by (cases "call_post c shared p PNone s1")
  from call_post_shape [OF cp] sh have
    "trace s2 = trace s @ [Call (view s c) (Prep shared) (Inr p), Call (view s1 c) (Post shared p PNone) x]"
    by simp
  then show ?thesis using z r cp by (simp add: new_events_append)
qed

lemma zero_retry_facts:
  "max_retries_f zero_retry_state 1 = 0"
  "resolve defines__exec (base (class_of zero_retry_state 1)) = Node"
  "call_prep 1 0 zero_retry_state =
     (Inr PNone, zero_retry_state\<lparr>trace := [Call \<lparr>self_id = 1, cur_retry = 0\<rparr> (Prep 0) (Inr PNone)]\<rparr>)"
  by (simp_all add: zero_retry_state_def new_object_def init_state_def Let_def failing_class_def
        plain_def resolve_def call_prep_def view_def BaseNode_prep_def)

theorem C10_zero_retries_witness:
  "BaseNode__run 1 0 zero_retry_state =
     call_post 1 0 PNone PNone
       (zero_retry_state\<lparr>trace := [Call \<lparr>self_id = 1, cur_retry = 0\<rparr> (Prep 0) (Inr PNone)]\<rparr>) \<and>
   attempts (new_events zero_retry_state (snd (BaseNode__run 1 0 zero_retry_state))) = [] \<and>
   fallbacks (new_events zero_retry_state (snd (BaseNode__run 1 0 zero_retry_state))) = []"
proof -
  note t = C10_zero_retries [OF zero_retry_facts]
  note r = t [THEN conjunct2, THEN conjunct1]
  note e = t [THEN conjunct2, THEN conjunct2]
  have "attempts (new_events zero_retry_state (snd (BaseNode__run 1 0 zero_retry_state))) = []"
    by (simp only: e attempts_post attempts_simps)
  moreover
  have "fallbacks (new_events zero_retry_state (snd (BaseNode__run 1 0 zero_retry_state))) = []"
    by (simp only: e attempts_post fallbacks_simps)
  ultimately show ?thesis using r by blast
qed

subsection \<open>The attempt index seen by user code\<close>

lemma async_eval:
  "attempt_indices (new_events async_retry_state (snd (AsyncNode__exec 1 PNone async_retry_state))) = [0, 0]"
  by (simp add: AsyncNode__exec_def py_range_def upt2 async_retry_state_def new_object_def init_state_def
        Let_def call_exec_async_def call_exec_fallback_async_def
        view_def failing_class_def plain_def new_events_def attempt_indices_def List.map_filter_simps)

lemma async_attempts_eval:
  "attempts (new_events async_retry_state (snd (AsyncNode__exec 1 PNone async_retry_state))) =
     [Inl (UserError (PStr ''boom'')), Inl (UserError (PStr ''boom''))]"
  by (simp add: AsyncNode__exec_def py_range_def upt2 async_retry_state_def new_object_def init_state_def
        Let_def call_exec_async_def call_exec_fallback_async_def
        view_def failing_class_def plain_def new_events_def)

lemma sync_eval:
  "attempt_indices (new_events retry_state (snd (Node__exec 1 PNone retry_state))) = [0, 1]"
  by (simp add: Node__exec_def py_range_def upt2 retry_state_def new_object_def init_state_def
        Let_def call_exec_def call_exec_fallback_def
        view_def failing_class_def plain_def new_events_def attempt_indices_def List.map_filter_simps)


lemma attempt_indices_simps [simp]:
  "attempt_indices [] = []"
  "attempt_indices (Call v (Exec p) r # evs) = cur_retry v # attempt_indices evs"
  "attempt_indices (Call v (ExecAsync p) r # evs) = cur_retry v # attempt_indices evs"
  "attempt_indices (Call v (Fallback p e) r # evs) = attempt_indices evs"
  "attempt_indices (Call v (FallbackAsync p e) r # evs) = attempt_indices evs"
  "attempt_indices (Sleep w # evs) = attempt_indices evs"
  "attempt_indices (AsyncSleep w # evs) = attempt_indices evs"
  by (simp_all add: attempt_indices_def List.map_filter_simps)

lemma Node__exec_for_indices:
  "k \<le> N \<Longrightarrow> Node__exec_for (map int [k..<N]) c p s = (res, s') \<Longrightarrow>
     \<exists>evs. trace s' = trace s @ evs \<and>
           attempt_indices evs = map int [k..<k + length (attempts evs)]"
proof (induction "N - k" arbitrary: k s)
  case 0
  then show ?case by simp
next
  case (Suc n)
  then have kN: "k < N" and n: "n = N - Suc k" by auto
  then have up: "[k..<N] = k # [Suc k..<N]" by (simp add: upt_conv_Cons)
  let ?s1 = "s\<lparr>cur_retry_f := (cur_retry_f s)(c := int k)\<rparr>"
  obtain r s2 where ce: "call_exec c p ?s1 = (r, s2)" by (cases "call_exec c p ?s1")
  note sh = call_exec_shape [OF ce]
  have v: "cur_retry (view ?s1 c) = int k" by (simp add: view_def)
  have one: "attempt_indices [Call (view ?s1 c) (Exec p) r] = map int [k..<k + 1]"
    using v by simp
  show ?case
  proof (cases r)
    case (Inr x)
    with Suc.prems ce up sh have "trace s' = trace s @ [Call (view ?s1 c) (Exec p) r]" by auto
    with one show ?thesis by fastforce
  next
    case (Inl e)
    show ?thesis
    proof (cases "cur_retry_f s2 c = max_retries_f s2 c - 1")
      case True
      with Suc.prems ce up Inl have fb: "call_exec_fallback c p e s2 = (res, s')" by auto
      from call_exec_fallback_shape [OF fb] sh have
        "trace s' = trace s @ [Call (view ?s1 c) (Exec p) r, Call (view s2 c) (Fallback p e) res]"
        by simp
      moreover have
        "attempt_indices [Call (view ?s1 c) (Exec p) r, Call (view s2 c) (Fallback p e) res] =
           map int [k..<k + length (attempts [Call (view ?s1 c) (Exec p) r, Call (view s2 c) (Fallback p e) res])]"
        using v by simp
      ultimately show ?thesis by blast
    next
      case False
      let ?s3 = "if wait_f s2 c > 0 then sleep (wait_f s2 c) s2 else s2"
      from False Suc.prems ce up Inl have
        rec: "Node__exec_for (map int [Suc k..<N]) c p ?s3 = (res, s')" by auto
      from Suc.hyps(1) [OF n _ rec] kN obtain evs where
        evs: "trace s' = trace ?s3 @ evs"
             "attempt_indices evs = map int [Suc k..<Suc k + length (attempts evs)]" by auto
      have ix: "int k # map int [Suc k..<Suc k + length (attempts evs)] =
                map int [k..<k + Suc (length (attempts evs))]"
      proof -
        have "[k..<k + Suc (length (attempts evs))] = k # [Suc k..<k + Suc (length (attempts evs))]"
          by (rule upt_conv_Cons) simp
        then show ?thesis by (simp only: add_Suc add_Suc_right list.map)
      qed
      show ?thesis
      proof (cases "wait_f s2 c > 0")
        case True
        with evs sh have
          "trace s' = trace s @ (Call (view ?s1 c) (Exec p) r # Sleep (wait_f s2 c) # evs)"
          by (simp add: sleep_def)
        moreover have
          "attempt_indices (Call (view ?s1 c) (Exec p) r # Sleep (wait_f s2 c) # evs) =
             map int [k..<k + length (attempts (Call (view ?s1 c) (Exec p) r # Sleep (wait_f s2 c) # evs))]"
          using v evs(2) ix by simp
        ultimately show ?thesis by blast
      next
        case False
        with evs sh have "trace s' = trace s @ (Call (view ?s1 c) (Exec p) r # evs)"
          by simp
        moreover have
          "attempt_indices (Call (view ?s1 c) (Exec p) r # evs) =
             map int [k..<k + length (attempts (Call (view ?s1 c) (Exec p) r # evs))]"
          using v evs(2) ix by simp
        ultimately show ?thesis by blast
      qed
    qed
  qed
qed

lemma Node__exec_attempt_index:
  "attempt_indices (new_events s (snd (Node__exec c p s))) =
     map int [0..<length (attempts (new_events s (snd (Node__exec c p s))))]"
proof -
  obtain res s' where a: "Node__exec c p s = (res, s')" by (cases "Node__exec c p s")
  then have "Node__exec_for (map int [0..<nat (max_retries_f s c)]) c p s = (res, s')"
    by (simp add: Node__exec_def py_range_def)
  from Node__exec_for_indices [OF _ this] obtain evs where
    "trace s' = trace s @ evs" "attempt_indices evs = map int [0..<0 + length (attempts evs)]"
    by auto
  then show ?thesis using a by (simp add: new_events_append)
qed

text \<open>
  C7: at attempt \<open>k\<close> of a visit the attempt index that user code reads during the
  execute phase is \<open>k\<close>. \<^verbatim>\<open>Node._exec\<close> does this (\<open>Node__exec_attempt_index\<close>
  above: the indices read are \<open>0, 1, 2, ...\<close>). \<^verbatim>\<open>AsyncNode._exec\<close> loops on a local
  variable and never assigns \<^verbatim>\<open>self.cur_retry\<close>: a node created with
  \<^verbatim>\<open>max_retries=2\<close> whose execute raises reads index 0 at both attempts, where the
  synchronous node reads 0 and then 1.
\<close>

theorem C7_async_attempt_index_stays_zero:
  "attempt_indices
     (new_events async_retry_state (snd (AsyncNode__exec 1 PNone async_retry_state))) = [0, 0] \<and>
   attempts
     (new_events async_retry_state (snd (AsyncNode__exec 1 PNone async_retry_state))) =
     [Inl (UserError (PStr ''boom'')), Inl (UserError (PStr ''boom''))] \<and>
   attempt_indices (new_events retry_state (snd (Node__exec 1 PNone retry_state))) = [0, 1]"
  using async_eval sync_eval async_attempts_eval by simp

subsection \<open>The batch adapter\<close>

lemma Node__exec_for_max_retries:
  "Node__exec_for ks c p s = (res, s') \<Longrightarrow> max_retries_f s' = max_retries_f s"
proof (induction ks arbitrary: s)
  case Nil
  then show ?case by simp
next
  case (Cons k ks)
  let ?s1 = "s\<lparr>cur_retry_f := (cur_retry_f s)(c := k)\<rparr>"
  obtain r s2 where ce: "call_exec c p ?s1 = (r, s2)" by (cases "call_exec c p ?s1")
  note sh = call_exec_shape [OF ce]
  show ?case
  proof (cases r)
    case (Inr v)
    with Cons.prems ce sh show ?thesis by auto
  next
    case (Inl e)
    show ?thesis
    proof (cases "cur_retry_f s2 c = max_retries_f s2 c - 1")
      case True
      with Cons.prems ce Inl have fb: "call_exec_fallback c p e s2 = (res, s')" by auto
      from call_exec_fallback_shape [OF fb] sh show ?thesis by simp
    next
      case False
      let ?s3 = "if wait_f s2 c > 0 then sleep (wait_f s2 c) s2 else s2"
      from False Cons.prems ce Inl have rec: "Node__exec_for ks c p ?s3 = (res, s')" by auto
      from Cons.IH [OF rec] sh show ?thesis by (simp add: sleep_def split: if_splits)
    qed
  qed
qed

lemma Node__exec_max_retries: "max_retries_f (snd (Node__exec c p s)) = max_retries_f s"
  using Node__exec_for_max_retries [of _ c p s] by (cases "Node__exec c p s") (simp add: Node__exec_def)

lemma item_state_max_retries: "max_retries_f (item_state c items i s) = max_retries_f s"
  by (induction c items i s rule: item_state.induct) (simp_all add: Node__exec_max_retries)

lemma item_state_Suc:
  "i < length items \<Longrightarrow>
     item_state c items (Suc i) s = snd (Node__exec c (items ! i) (item_state c items i s))"
proof (induction items arbitrary: i s)
  case Nil
  then show ?case by simp
next
  case (Cons x xs)
  then show ?case by (cases i) simp_all
qed

lemma BatchNode__exec_items_results:
  "BatchNode__exec_items c items s = (Inr rs, s') \<Longrightarrow>
     length rs = length items \<and> s' = item_state c items (length items) s \<and>
     (\<forall>i<length items. fst (Node__exec c (items ! i) (item_state c items i s)) = Inr (rs ! i))"
proof (induction items arbitrary: s rs s')
  case Nil
  then show ?case by simp
next
  case (Cons x xs)
  obtain r s1 where h: "Node__exec c x s = (Inr r, s1)"
    using Cons.prems by (auto split: prod.splits sum.splits)
  obtain rs' where t: "BatchNode__exec_items c xs s1 = (Inr rs', s')" and rs: "rs = r # rs'"
    using Cons.prems h by (auto split: prod.splits sum.splits)
  note ih = Cons.IH [OF t]
  have "\<forall>i<length (x # xs).
          fst (Node__exec c ((x # xs) ! i) (item_state c (x # xs) i s)) = Inr (rs ! i)"
  proof (intro allI impI)
    fix i assume "i < length (x # xs)"
    then show "fst (Node__exec c ((x # xs) ! i) (item_state c (x # xs) i s)) = Inr (rs ! i)"
      using h ih rs by (cases i) simp_all
  qed
  then show ?case using h ih rs by simp
qed

lemma BatchNode__exec_items_total:
  "(\<forall>i<length items. isl (fst (Node__exec c (items ! i) (item_state c items i s))) = False) \<Longrightarrow>
     \<exists>rs s'. BatchNode__exec_items c items s = (Inr rs, s')"
proof (induction items arbitrary: s)
  case Nil
  then show ?case by simp
next
  case (Cons x xs)
  from Cons.prems have "\<not> isl (fst (Node__exec c x s))" by force
  moreover obtain a s1 where "Node__exec c x s = (a, s1)" by (cases "Node__exec c x s")
  ultimately obtain r s1 where h: "Node__exec c x s = (Inr r, s1)"
    by (cases a) auto
  have "\<forall>i<length xs. isl (fst (Node__exec c (xs ! i) (item_state c xs i s1))) = False"
  proof (intro allI impI)
    fix i assume "i < length xs"
    then have "Suc i < length (x # xs)" by simp
    from Cons.prems [rule_format, OF this] h
    show "isl (fst (Node__exec c (xs ! i) (item_state c xs i s1))) = False" by simp
  qed
  from Cons.IH [OF this] obtain rs s' where "BatchNode__exec_items c xs s1 = (Inr rs, s')" by blast
  with h show ?case by simp
qed

text \<open>
  C4: the result of a batch node is a list as long as the prepared list, whose element
  \<open>i\<close> is the result of the retry wrapper on item \<open>i\<close>, the items processed in order
  (item \<open>i\<close> in the state left by the items before it); an empty or absent
  (\<^verbatim>\<open>None\<close>) prepared value gives the empty list and calls nothing; every item has
  its own budget of \<open>N\<close> attempts. The batch returns whenever every item's wrapper does.
\<close>

theorem C4_batch_node:
  assumes "max_retries_f s c = int N"
  shows "BatchNode__exec c PNone s = (Inr (PList []), s) \<and>
         BatchNode__exec c (PList []) s = (Inr (PList []), s) \<and>
         (\<forall>i<length items.
            attempt_bound N (items ! i)
              (fst (Node__exec c (items ! i) (item_state c items i s)))
              (new_events (item_state c items i s) (item_state c items (Suc i) s))) \<and>
         (\<forall>v s'. BatchNode__exec c (PList items) s = (Inr v, s') \<longrightarrow>
            (\<exists>rs. v = PList rs \<and> length rs = length items \<and>
                  s' = item_state c items (length items) s \<and>
                  (\<forall>i<length items.
                     fst (Node__exec c (items ! i) (item_state c items i s)) = Inr (rs ! i)))) \<and>
         ((\<forall>i<length items. \<not> isl (fst (Node__exec c (items ! i) (item_state c items i s))))
            \<longrightarrow> (\<exists>rs. fst (BatchNode__exec c (PList items) s) = Inr (PList rs)))"
proof -
  have e1: "BatchNode__exec c PNone s = (Inr (PList []), s)"
    by (simp add: BatchNode__exec_def py_or_def)
  have e2: "BatchNode__exec c (PList []) s = (Inr (PList []), s)"
    by (simp add: BatchNode__exec_def py_or_def)
  have it: "py_iter (py_or (PList items) (PList [])) = Inr items"
    by (cases items) (simp_all add: py_or_def)
  have b: "\<forall>i<length items.
            attempt_bound N (items ! i)
              (fst (Node__exec c (items ! i) (item_state c items i s)))
              (new_events (item_state c items i s) (item_state c items (Suc i) s))"
  proof (intro allI impI)
    fix i assume i: "i < length items"
    let ?si = "item_state c items i s"
    have m: "max_retries_f ?si c = int N" using assms by (simp add: item_state_max_retries)
    obtain res s' where a: "Node__exec c (items ! i) ?si = (res, s')"
      by (cases "Node__exec c (items ! i) ?si")
    then have "Node__exec_for (map int [0..<N]) c (items ! i) ?si = (res, s')"
      using m by (simp add: Node__exec_def py_range_def)
    from Node__exec_for_bound [OF m _ this] obtain evs where
      "trace s' = trace ?si @ evs" "attempt_bound N (items ! i) res evs" by auto
    then show "attempt_bound N (items ! i) (fst (Node__exec c (items ! i) ?si))
                 (new_events ?si (item_state c items (Suc i) s))"
      using a i by (simp add: item_state_Suc new_events_append)
  qed
  have r: "\<forall>v s'. BatchNode__exec c (PList items) s = (Inr v, s') \<longrightarrow>
            (\<exists>rs. v = PList rs \<and> length rs = length items \<and>
                  s' = item_state c items (length items) s \<and>
                  (\<forall>i<length items.
                     fst (Node__exec c (items ! i) (item_state c items i s)) = Inr (rs ! i)))"
  proof (intro allI impI)
    fix v s' assume h: "BatchNode__exec c (PList items) s = (Inr v, s')"
    then obtain rs where "BatchNode__exec_items c items s = (Inr rs, s')" "v = PList rs"
      by (auto simp: BatchNode__exec_def it split: prod.splits sum.splits)
    with BatchNode__exec_items_results [OF this(1)]
    show "\<exists>rs. v = PList rs \<and> length rs = length items \<and>
                  s' = item_state c items (length items) s \<and>
                  (\<forall>i<length items.
                     fst (Node__exec c (items ! i) (item_state c items i s)) = Inr (rs ! i))"
      by blast
  qed
  have t: "(\<forall>i<length items. \<not> isl (fst (Node__exec c (items ! i) (item_state c items i s))))
            \<longrightarrow> (\<exists>rs. fst (BatchNode__exec c (PList items) s) = Inr (PList rs))"
  proof
    assume "\<forall>i<length items. \<not> isl (fst (Node__exec c (items ! i) (item_state c items i s)))"
    then have "\<forall>i<length items.
                 isl (fst (Node__exec c (items ! i) (item_state c items i s))) = False" by simp
    from BatchNode__exec_items_total [OF this] obtain rs s' where
      "BatchNode__exec_items c items s = (Inr rs, s')" by blast
    then show "\<exists>rs. fst (BatchNode__exec c (PList items) s) = Inr (PList rs)"
      by (simp add: BatchNode__exec_def it)
  qed
  from e1 e2 b r t show ?thesis by blast
qed

lemma batch_state_facts:
  "max_retries_f batch_state 1 = int 1"
  "fst (BatchNode__exec 1 (PList [PInt 1, PInt 2]) batch_state) = Inr (PList [PInt 2, PInt 4])"
  by (simp_all add: batch_state_def new_object_def init_state_def Let_def doubling_class_def
        plain_def BatchNode__exec_def py_or_def Node__exec_def py_range_def call_exec_def view_def)

theorem C4_batch_node_witness:
  "BatchNode__exec 1 PNone batch_state = (Inr (PList []), batch_state) \<and>
   fst (BatchNode__exec 1 (PList [PInt 1, PInt 2]) batch_state) = Inr (PList [PInt 2, PInt 4]) \<and>
   attempt_bound 1 (PInt 1) (fst (Node__exec 1 (PInt 1) batch_state))
     (new_events batch_state (item_state 1 [PInt 1, PInt 2] 1 batch_state))"
proof -
  note t = C4_batch_node [OF batch_state_facts(1), of "[PInt 1, PInt 2]"]
  note a = t [THEN conjunct1]
  from t have "\<forall>i<length [PInt 1, PInt 2].
            attempt_bound 1 ([PInt 1, PInt 2] ! i)
              (fst (Node__exec 1 ([PInt 1, PInt 2] ! i) (item_state 1 [PInt 1, PInt 2] i batch_state)))
              (new_events (item_state 1 [PInt 1, PInt 2] i batch_state)
                 (item_state 1 [PInt 1, PInt 2] (Suc i) batch_state))"
    by blast
  from this [rule_format, of 0] have
    "attempt_bound 1 (PInt 1) (fst (Node__exec 1 (PInt 1) batch_state))
       (new_events batch_state (item_state 1 [PInt 1, PInt 2] 1 batch_state))" by simp
  with a batch_state_facts(2) show ?thesis by blast
qed

section \<open>Properties of the transition algebra\<close>

lemma map_of_dict_set: "map_of (dict_set kvs k v) = (map_of kvs)(k \<mapsto> v)"
  by (induction kvs) auto

lemma successors_after_next:
  "hashable a \<Longrightarrow>
     successors (snd (BaseNode_next frm target a s)) frm = dict_set (successors s frm) a target"
  by (simp add: BaseNode_next_def successors_def warn_def Let_def)

text \<open>
  C9: for a string label, the two-step shorthand (\<^verbatim>\<open>frm - label\<close> gives a pending
  edge, \<^verbatim>\<open>>> target\<close> completes it) leaves exactly the state that
  \<^verbatim>\<open>frm.next(target, label)\<close> leaves and returns the same value, the target node;
  afterwards the label maps to the target. A label that is not a string raises a type
  error and changes nothing.
\<close>

theorem C9_shorthand_is_next:
  "sub_then_rshift frm (PStr label) target s = BaseNode_next frm target (PStr label) s \<and>
   fst (BaseNode_next frm target (PStr label) s) = Inr target \<and>
   map_of (successors (snd (sub_then_rshift frm (PStr label) target s)) frm) (PStr label) =
     Some target \<and>
   (\<not> is_str v \<longrightarrow>
      BaseNode_sub frm v = Inl (TypeError ''Action must be a string'') \<and>
      sub_then_rshift frm v target s = (Inl (TypeError ''Action must be a string''), s))"
proof -
  have a: "sub_then_rshift frm (PStr label) target s = BaseNode_next frm target (PStr label) s"
    by (simp add: sub_then_rshift_def BaseNode_sub_def ConditionalTransition_rshift_def)
  have b: "fst (BaseNode_next frm target (PStr label) s) = Inr target"
    by (simp add: BaseNode_next_def Let_def)
  have c: "map_of (successors (snd (sub_then_rshift frm (PStr label) target s)) frm) (PStr label) =
             Some target"
    by (simp add: a successors_after_next map_of_dict_set)
  have d: "\<not> is_str v \<longrightarrow>
      BaseNode_sub frm v = Inl (TypeError ''Action must be a string'') \<and>
      sub_then_rshift frm v target s = (Inl (TypeError ''Action must be a string''), s)"
    by (simp add: sub_then_rshift_def BaseNode_sub_def)
  from a b c d show ?thesis by blast
qed

theorem C9_shorthand_is_next_witness:
  "sub_then_rshift 1 (PStr ''left'') 4 two_nodes = BaseNode_next 1 4 (PStr ''left'') two_nodes \<and>
   successors (snd (sub_then_rshift 1 (PStr ''left'') 4 two_nodes)) 1 = [(PStr ''left'', 4)] \<and>
   sub_then_rshift 1 (PInt 3) 4 two_nodes = (Inl (TypeError ''Action must be a string''), two_nodes)"
proof -
  note t = C9_shorthand_is_next [of 1 "''left''" 4 two_nodes "PInt 3"]
  have s: "successors two_nodes 1 = []"
    by (simp add: two_nodes_def new_object_def init_state_def Let_def successors_def)
  have "successors (snd (sub_then_rshift 1 (PStr ''left'') 4 two_nodes)) 1 = [(PStr ''left'', 4)]"
    using t s by (simp add: successors_after_next)
  with t show ?thesis by simp
qed

section \<open>Properties of the flow interpreter\<close>

lemma py_or_default:
  "py_or PNone (PStr ''default'') = PStr ''default''"
  "py_or (PStr []) (PStr ''default'') = PStr ''default''"
  by (simp_all add: py_or_def)

text \<open>
  C3: when the action returned by post is \<^verbatim>\<open>None\<close> or the empty string, the
  successor is looked up under \<^verbatim>\<open>"default"\<close>. When the label looked up (the action,
  or \<^verbatim>\<open>"default"\<close>) has no entry in the node's successor dict, the lookup gives
  \<^verbatim>\<open>None\<close>, a warning is logged exactly when the successor dict is not empty, and
  the traversal ends there, returning that action.
\<close>

theorem C3_default_label:
  "((act = PNone \<or> act = PStr []) \<longrightarrow>
      fst (Flow_get_next_node f c act s) = Inr (map_of (successors s c) (PStr ''default''))) \<and>
   (hashable (py_or act (PStr ''default'')) \<and>
    map_of (successors s c) (py_or act (PStr ''default'')) = None \<longrightarrow>
      fst (Flow_get_next_node f c act s) = Inr None \<and>
      trace (snd (Flow_get_next_node f c act s)) =
        trace s @ (if successors s c \<noteq> []
                   then [Warn (FlowEnds act (map fst (successors s c)))] else []) \<and>
      (\<forall>run_fn n np sh last s0.
         run_fn c sh (BaseNode_set_params c np s0) = Some (Inr act, s) \<longrightarrow>
         Flow__orch_while run_fn (Suc n) f (Some c) np sh last s0 =
           Some (Inr act, snd (Flow_get_next_node f c act s))))"
proof -
  have a: "(act = PNone \<or> act = PStr []) \<longrightarrow>
      fst (Flow_get_next_node f c act s) = Inr (map_of (successors s c) (PStr ''default''))"
    by (auto simp: Flow_get_next_node_def Let_def py_or_default)
  have b: "hashable (py_or act (PStr ''default'')) \<and>
    map_of (successors s c) (py_or act (PStr ''default'')) = None \<longrightarrow>
      fst (Flow_get_next_node f c act s) = Inr None \<and>
      trace (snd (Flow_get_next_node f c act s)) =
        trace s @ (if successors s c \<noteq> []
                   then [Warn (FlowEnds act (map fst (successors s c)))] else []) \<and>
      (\<forall>run_fn n np sh last s0.
         run_fn c sh (BaseNode_set_params c np s0) = Some (Inr act, s) \<longrightarrow>
         Flow__orch_while run_fn (Suc n) f (Some c) np sh last s0 =
           Some (Inr act, snd (Flow_get_next_node f c act s)))"
  proof (intro impI, elim conjE)
    assume h: "hashable (py_or act (PStr ''default''))"
      and n: "map_of (successors s c) (py_or act (PStr ''default'')) = None"
    obtain s3 where g: "Flow_get_next_node f c act s = (Inr None, s3)"
      using h n by (simp add: Flow_get_next_node_def Let_def)
    have w: "trace s3 = trace s @ (if successors s c \<noteq> []
                   then [Warn (FlowEnds act (map fst (successors s c)))] else [])"
      using g h n by (auto simp: Flow_get_next_node_def Let_def warn_def)
    have l: "\<forall>run_fn n np sh last s0.
         run_fn c sh (BaseNode_set_params c np s0) = Some (Inr act, s) \<longrightarrow>
         Flow__orch_while run_fn (Suc n) f (Some c) np sh last s0 = Some (Inr act, s3)"
      using g by (simp add: copy_copy_def)
    from g w l show "fst (Flow_get_next_node f c act s) = Inr None \<and>
      trace (snd (Flow_get_next_node f c act s)) =
        trace s @ (if successors s c \<noteq> []
                   then [Warn (FlowEnds act (map fst (successors s c)))] else []) \<and>
      (\<forall>run_fn n np sh last s0.
         run_fn c sh (BaseNode_set_params c np s0) = Some (Inr act, s) \<longrightarrow>
         Flow__orch_while run_fn (Suc n) f (Some c) np sh last s0 =
           Some (Inr act, snd (Flow_get_next_node f c act s)))"
      by simp
  qed
  from a b show ?thesis by blast
qed

lemma wired_nodes_successors:
  "successors wired_nodes 1 = [(PStr ''left'', 4)]"
  "successors wired_nodes (Suc 0) = [(PStr ''left'', 4)]"
  "successors wired_nodes 4 = []"
  by (simp_all add: wired_nodes_def sub_then_rshift_def BaseNode_sub_def
        ConditionalTransition_rshift_def BaseNode_next_def two_nodes_def new_object_def
        init_state_def Let_def successors_def)

theorem C3_default_label_witness:
  "fst (Flow_get_next_node 0 1 PNone wired_nodes) = Inr None \<and>
   trace (snd (Flow_get_next_node 0 1 PNone wired_nodes)) =
     trace wired_nodes @ [Warn (FlowEnds PNone [PStr ''left''])] \<and>
   fst (Flow_get_next_node 0 4 (PStr ''done'') wired_nodes) = Inr None \<and>
   trace (snd (Flow_get_next_node 0 4 (PStr ''done'') wired_nodes)) = trace wired_nodes"
proof -
  have p1: "hashable (py_or PNone (PStr ''default'')) \<and>
            map_of (successors wired_nodes 1) (py_or PNone (PStr ''default'')) = None"
    by (simp add: wired_nodes_successors py_or_def)
  have p2: "hashable (py_or (PStr ''done'') (PStr ''default'')) \<and>
            map_of (successors wired_nodes 4) (py_or (PStr ''done'') (PStr ''default'')) = None"
    by (simp add: wired_nodes_successors py_or_def)
  note t1 = C3_default_label [of PNone 0 1 wired_nodes, THEN conjunct2, THEN mp, OF p1]
  note t2 = C3_default_label [of "PStr ''done''" 0 4 wired_nodes, THEN conjunct2, THEN mp, OF p2]
  from t1 have a: "fst (Flow_get_next_node 0 1 PNone wired_nodes) = Inr None" by (rule conjunct1)
  from t1 have "trace (snd (Flow_get_next_node 0 1 PNone wired_nodes)) =
        trace wired_nodes @ (if successors wired_nodes 1 \<noteq> []
                   then [Warn (FlowEnds PNone (map fst (successors wired_nodes 1)))] else [])"
    by (rule conjunct2 [THEN conjunct1])
  then have b: "trace (snd (Flow_get_next_node 0 1 PNone wired_nodes)) =
     trace wired_nodes @ [Warn (FlowEnds PNone [PStr ''left''])]"
    by (simp only: wired_nodes_successors) simp
  from t2 have c: "fst (Flow_get_next_node 0 4 (PStr ''done'') wired_nodes) = Inr None"
    by (rule conjunct1)
  from t2 have "trace (snd (Flow_get_next_node 0 4 (PStr ''done'') wired_nodes)) =
        trace wired_nodes @ (if successors wired_nodes 4 \<noteq> []
                   then [Warn (FlowEnds (PStr ''done'') (map fst (successors wired_nodes 4)))] else [])"
    by (rule conjunct2 [THEN conjunct1])
  then have d: "trace (snd (Flow_get_next_node 0 4 (PStr ''done'') wired_nodes)) = trace wired_nodes"
    by (simp only: wired_nodes_successors) simp
  from a b c d show ?thesis by blast
qed

section \<open>The synchronous run of cooperative classes\<close>

lemmas engine_defs =
  BaseNode_run_def Flow__run_def Flow__orch_def BatchFlow__run_def BaseNode__run_def
  AsyncNode__run_def dispatch__exec_def BaseNode__exec_def Node__exec_def BatchNode__exec_def
  AsyncNode__exec_def Flow_get_next_node_def copy_copy_def new_dict_def BaseNode_set_params_def
  successors_def call_prep_def call_exec_def call_exec_fallback_def call_post_def
  call_exec_async_def call_exec_fallback_async_def view_def warn_def sleep_def async_sleep_def
  resolve_def py_or_def py_range_def new_object_def init_state_def plain_def Let_def
  BaseNode_prep_def BaseNode_exec_def BaseNode_post_def Node_exec_fallback_def Flow_post_def
  BaseNode_next_def BaseNode_rshift_def sub_then_rshift_def BaseNode_sub_def
  ConditionalTransition_rshift_def

lemma async_flow_eval:
  "map_option (\<lambda>r. (fst r, trace (snd r))) (BaseNode_run 2 4 0 async_flow_state) =
     Some (Inr PNone,
       [Call \<lparr>self_id = 4, cur_retry = 0\<rparr> (Prep 0) (Inr PNone),
        Call \<lparr>self_id = 7, cur_retry = 0\<rparr> (Prep 0) (Inr PNone),
        Call \<lparr>self_id = 7, cur_retry = 0\<rparr> (Exec PNone) (Inr PNone),
        Call \<lparr>self_id = 7, cur_retry = 0\<rparr> (Post 0 PNone PNone) (Inr PNone),
        Call \<lparr>self_id = 4, cur_retry = 0\<rparr> (Post 0 PNone PNone) (Inr PNone)])"
  by (simp add: async_flow_state_def engine_defs numeral_2_eq_2)

lemma async_node_eval:
  "BaseNode_run n 1 0 async_node_state =
     Some (Inl (RuntimeError ''Use run_async for AsyncNode.''), async_node_state)"
  by (cases n) (simp_all add: async_node_state_def engine_defs)

lemma mro_is_c3: "c3_mro (Suc (Suc (Suc (Suc (Suc 0))))) k = Some (mro k)"
  by (cases k) (simp_all add: Let_def)

lemma async_node_sync_run_raises:
  "base (class_of s c) = AsyncNode \<or> base (class_of s c) = AsyncBatchNode \<or>
   base (class_of s c) = AsyncParallelBatchNode \<Longrightarrow>
     BaseNode_run n c sh s =
       Some (Inl (RuntimeError ''Use run_async for AsyncNode.''),
             if successors s c \<noteq> [] then warn WontRunSuccessors s else s)"
  by (cases n) (auto simp: BaseNode_run_def resolve_def AsyncNode__run_def warn_def)

lemma async_flow_sync_run_resolves:
  "base (class_of s c) = AsyncFlow \<Longrightarrow>
     dispatch__run (Suc n) c sh s = Flow__run (dispatch__run n) n c sh s"
  "base (class_of s c) = AsyncBatchFlow \<or> base (class_of s c) = AsyncParallelBatchFlow \<Longrightarrow>
     dispatch__run (Suc n) c sh s = BatchFlow__run (dispatch__run n) n c sh s"
  by (auto simp: resolve_def)

text \<open>
  C8: the synchronous run of a cooperative node raises the "use the cooperative run"
  error instead of running a phase. The classes \<^verbatim>\<open>AsyncNode\<close>,
  \<^verbatim>\<open>AsyncBatchNode\<close> and \<^verbatim>\<open>AsyncParallelBatchNode\<close> do so
  (\<open>async_node_sync_run_raises\<close>). The cooperative flows do not: \<^verbatim>\<open>Flow\<close> stands
  before \<^verbatim>\<open>AsyncNode\<close> in their method resolution order, so \<^verbatim>\<open>run\<close> reaches
  \<^verbatim>\<open>Flow._run\<close> (\<^verbatim>\<open>BatchFlow._run\<close> for the batch flows). On
  \<^verbatim>\<open>AsyncFlow(start_node=Node())\<close> the synchronous run returns \<^verbatim>\<open>None\<close>
  after calling prep, exec and post of the node's copy and prep and post of the flow.
\<close>

theorem C8_async_flow_sync_run_does_not_raise:
  "map_option (\<lambda>r. (fst r, trace (snd r))) (BaseNode_run 2 4 0 async_flow_state) =
     Some (Inr PNone,
       [Call \<lparr>self_id = 4, cur_retry = 0\<rparr> (Prep 0) (Inr PNone),
        Call \<lparr>self_id = 7, cur_retry = 0\<rparr> (Prep 0) (Inr PNone),
        Call \<lparr>self_id = 7, cur_retry = 0\<rparr> (Exec PNone) (Inr PNone),
        Call \<lparr>self_id = 7, cur_retry = 0\<rparr> (Post 0 PNone PNone) (Inr PNone),
        Call \<lparr>self_id = 4, cur_retry = 0\<rparr> (Post 0 PNone PNone) (Inr PNone)]) \<and>
   BaseNode_run 2 1 0 async_node_state =
     Some (Inl (RuntimeError ''Use run_async for AsyncNode.''), async_node_state)"
  using async_flow_eval async_node_eval by simp

section \<open>Properties of a flow run\<close>

lemma copy_copy_Some:
  "copy_copy (Some e) s = (Some (fresh (usr s)), snd (copy_copy (Some e) s)) \<and>
   class_of (snd (copy_copy (Some e) s)) (fresh (usr s)) = class_of s e \<and>
   successors (snd (copy_copy (Some e) s)) (fresh (usr s)) = successors s e \<and>
   params_f (usr (snd (copy_copy (Some e) s))) (fresh (usr s)) = params_f (usr s) e"
  by (simp add: copy_copy_def Let_def successors_def)

lemma copy_copy_None_iff: "copy_copy x s = (None, s') \<Longrightarrow> x = None \<and> s' = s"
  by (cases x) (auto simp: copy_copy_def Let_def)

lemma Flow__orch_while_last:
  "Flow__orch_while run_fn n f cur np sh la s0 = Some (Inr a, s') \<Longrightarrow>
     (cur = None \<and> a = la \<and> s' = s0) \<or>
     (\<exists>c sc sc'. run_fn c sh sc = Some (Inr a, sc') \<and>
                 Flow_get_next_node f c a sc' = (Inr None, s'))"
proof (induction n arbitrary: cur la s0)
  case 0
  then show ?case by (cases cur) simp_all
next
  case (Suc n)
  show ?case
  proof (cases cur)
    case None
    with Suc.prems show ?thesis by simp
  next
    case (Some c)
    from Suc.prems Some obtain a1 s2 where
      r: "run_fn c sh (BaseNode_set_params c np s0) = Some (Inr a1, s2)"
      by (auto split: option.splits prod.splits sum.splits)
    from Suc.prems Some r obtain nxt s3 where
      g: "Flow_get_next_node f c a1 s2 = (Inr nxt, s3)"
      by (auto split: option.splits prod.splits sum.splits)
    obtain c' s4 where cp: "copy_copy nxt s3 = (c', s4)" by (cases "copy_copy nxt s3")
    from Suc.prems Some r g cp have
      rec: "Flow__orch_while run_fn n f c' np sh a1 s4 = Some (Inr a, s')" by simp
    from Suc.IH [OF rec] show ?thesis
    proof
      assume "c' = None \<and> a = a1 \<and> s' = s4"
      with cp copy_copy_None_iff [of nxt s3 s4] have "nxt = None" "s4 = s3" "a = a1" "s' = s4"
        by auto
      with r g show ?thesis by blast
    next
      assume "\<exists>c sc sc'. run_fn c sh sc = Some (Inr a, sc') \<and>
                 Flow_get_next_node f c a sc' = (Inr None, s')"
      then show ?thesis by blast
    qed
  qed
qed

lemma BaseNode__run_result_is_post:
  "BaseNode__run c sh s = (Inr a, s') \<Longrightarrow> \<exists>p r s2. call_post c sh p r s2 = (Inr a, s')"
  by (auto simp: BaseNode__run_def split: prod.splits sum.splits)

lemma Flow__orch_starts_from_copy:
  "\<exists>np s2. Flow__orch run_fn n f sh params s1 =
     Flow__orch_while run_fn n f (fst (copy_copy (start_node_f s1 f) s1)) np sh PNone s2"
  by (auto simp: Flow__orch_def split: prod.splits option.splits)

lemma dispatch__run_result_is_post:
  "dispatch__run m c sh sc = Some (Inr a, sc') \<Longrightarrow>
     \<exists>p r s2. call_post c sh p r s2 = (Inr a, sc')"
proof (cases m)
  case 0
  assume h: "dispatch__run m c sh sc = Some (Inr a, sc')"
  with 0 have "BaseNode__run c sh sc = (Inr a, sc')"
    by (cases "resolve defines__run (base (class_of sc c))")
       (simp_all add: AsyncNode__run_def)
  then show ?thesis by (rule BaseNode__run_result_is_post)
next
  case (Suc n)
  assume h: "dispatch__run m c sh sc = Some (Inr a, sc')"
  show ?thesis
  proof (cases "resolve defines__run (base (class_of sc c)) = Flow")
    case True
    with h Suc have "Flow__run (dispatch__run n) n c sh sc = Some (Inr a, sc')" by simp
    then show ?thesis
      by (auto simp: Flow__run_def split: prod.splits sum.splits option.splits)
  next
    case nf: False
    show ?thesis
    proof (cases "resolve defines__run (base (class_of sc c)) = BatchFlow")
      case True
      with h Suc have "BatchFlow__run (dispatch__run n) n c sh sc = Some (Inr a, sc')" by simp
      then show ?thesis
        by (auto simp: BatchFlow__run_def Let_def split: prod.splits sum.splits option.splits)
    next
      case False
      with nf h Suc have "BaseNode__run c sh sc = (Inr a, sc')"
        by (cases "resolve defines__run (base (class_of sc c))")
           (simp_all add: AsyncNode__run_def)
      then show ?thesis by (rule BaseNode__run_result_is_post)
    qed
  qed
qed

text \<open>
  C2: a flow run is the flow's own prep, then the traversal, which starts from a copy
  of the entry node, then the flow's post called with the shared object, the prep value
  and the traversal's last action; with the default post (\<^verbatim>\<open>Flow.post\<close>) the run
  returns that action unchanged. The last action is the one returned by the run of the
  last visited node (the one whose successor lookup found nothing), and what the run of
  a node of any class returns is the outcome of its post phase; a traversal that visits
  no node returns \<^verbatim>\<open>None\<close>.
\<close>

theorem C2_flow_run:
  assumes "resolve defines__run (base (class_of s f)) = Flow"
  shows "dispatch__run (Suc n) f sh s = Flow__run (dispatch__run n) n f sh s \<and>
    (\<forall>run_fn p s1 a s3.
       call_prep f sh s = (Inr p, s1) \<and> Flow__orch run_fn n f sh None s1 = Some (Inr a, s3) \<longrightarrow>
         trace s1 = trace s @ [Call (view s f) (Prep sh) (Inr p)] \<and>
         Flow__run run_fn n f sh s = Some (call_post f sh p a s3) \<and>
         trace (snd (call_post f sh p a s3)) =
           trace s3 @ [Call (view s3 f) (Post sh p a) (fst (call_post f sh p a s3))] \<and>
         (post (class_of s3 f) = Flow_post \<longrightarrow> fst (call_post f sh p a s3) = Inr a)) \<and>
    (\<forall>run_fn s1. \<exists>np s2.
       Flow__orch run_fn n f sh None s1 =
         Flow__orch_while run_fn n f (fst (copy_copy (start_node_f s1 f) s1)) np sh PNone s2) \<and>
    (\<forall>e s1. copy_copy (Some e) s1 = (Some (fresh (usr s1)), snd (copy_copy (Some e) s1)) \<and>
            class_of (snd (copy_copy (Some e) s1)) (fresh (usr s1)) = class_of s1 e \<and>
            successors (snd (copy_copy (Some e) s1)) (fresh (usr s1)) = successors s1 e) \<and>
    (\<forall>run_fn cur np la s0 a s'.
       Flow__orch_while run_fn n f cur np sh la s0 = Some (Inr a, s') \<longrightarrow>
         (cur = None \<and> a = la \<and> s' = s0) \<or>
         (\<exists>c sc sc'. run_fn c sh sc = Some (Inr a, sc') \<and>
                     Flow_get_next_node f c a sc' = (Inr None, s'))) \<and>
    (\<forall>m c sc a sc'. dispatch__run m c sh sc = Some (Inr a, sc') \<longrightarrow>
       (\<exists>p r s2. call_post c sh p r s2 = (Inr a, sc')))"
proof -
  have d: "dispatch__run (Suc n) f sh s = Flow__run (dispatch__run n) n f sh s"
    using assms by simp
  have r: "\<forall>run_fn p s1 a s3.
       call_prep f sh s = (Inr p, s1) \<and> Flow__orch run_fn n f sh None s1 = Some (Inr a, s3) \<longrightarrow>
         trace s1 = trace s @ [Call (view s f) (Prep sh) (Inr p)] \<and>
         Flow__run run_fn n f sh s = Some (call_post f sh p a s3) \<and>
         trace (snd (call_post f sh p a s3)) =
           trace s3 @ [Call (view s3 f) (Post sh p a) (fst (call_post f sh p a s3))] \<and>
         (post (class_of s3 f) = Flow_post \<longrightarrow> fst (call_post f sh p a s3) = Inr a)"
  proof (intro allI impI, elim conjE)
    fix run_fn :: "'a run_fn" and p s1 a s3
    assume cp: "call_prep f sh s = (Inr p, s1)"
      and o: "Flow__orch run_fn n f sh None s1 = Some (Inr a, s3)"
    have t1: "trace s1 = trace s @ [Call (view s f) (Prep sh) (Inr p)]"
      using call_prep_shape [OF cp] by simp
    have fr: "Flow__run run_fn n f sh s = Some (call_post f sh p a s3)"
      using cp o by (simp add: Flow__run_def)
    obtain x s4 where po: "call_post f sh p a s3 = (x, s4)" by (cases "call_post f sh p a s3")
    have t2: "trace (snd (call_post f sh p a s3)) =
           trace s3 @ [Call (view s3 f) (Post sh p a) (fst (call_post f sh p a s3))]"
      using call_post_shape [OF po] po by simp
    have dp: "post (class_of s3 f) = Flow_post \<longrightarrow> fst (call_post f sh p a s3) = Inr a"
      by (simp add: call_post_def Flow_post_def)
    from t1 fr t2 dp show "trace s1 = trace s @ [Call (view s f) (Prep sh) (Inr p)] \<and>
         Flow__run run_fn n f sh s = Some (call_post f sh p a s3) \<and>
         trace (snd (call_post f sh p a s3)) =
           trace s3 @ [Call (view s3 f) (Post sh p a) (fst (call_post f sh p a s3))] \<and>
         (post (class_of s3 f) = Flow_post \<longrightarrow> fst (call_post f sh p a s3) = Inr a)"
      by blast
  qed
  have c: "\<forall>run_fn s1. \<exists>np s2.
       Flow__orch run_fn n f sh None s1 =
         Flow__orch_while run_fn n f (fst (copy_copy (start_node_f s1 f) s1)) np sh PNone s2"
    using Flow__orch_starts_from_copy by blast
  have k: "\<forall>e s1. copy_copy (Some e) s1 = (Some (fresh (usr s1)), snd (copy_copy (Some e) s1)) \<and>
            class_of (snd (copy_copy (Some e) s1)) (fresh (usr s1)) = class_of s1 e \<and>
            successors (snd (copy_copy (Some e) s1)) (fresh (usr s1)) = successors s1 e"
    using copy_copy_Some by blast
  have l: "\<forall>run_fn cur np la s0 a s'.
       Flow__orch_while run_fn n f cur np sh la s0 = Some (Inr a, s') \<longrightarrow>
         (cur = None \<and> a = la \<and> s' = s0) \<or>
         (\<exists>c sc sc'. run_fn c sh sc = Some (Inr a, sc') \<and>
                     Flow_get_next_node f c a sc' = (Inr None, s'))"
    using Flow__orch_while_last by blast
  have b: "\<forall>m c sc a sc'. dispatch__run m c sh sc = Some (Inr a, sc') \<longrightarrow>
       (\<exists>p r s2. call_post c sh p r s2 = (Inr a, sc'))"
    using dispatch__run_result_is_post by blast
  from d r c k l b show ?thesis by blast
qed

lemma linear_flow_class:
  "resolve defines__run (base (class_of linear_flow_state 11)) = Flow"
  by (simp add: linear_flow_state_def engine_defs logging_class_def)

lemma linear_flow_eval:
  "map_option (\<lambda>r. (fst r, dicts (usr (snd r)) 1))
     (BaseNode_run (Suc (Suc (Suc (Suc (Suc 0))))) 11 1 linear_flow_state) =
     Some (Inr (PStr ''default''),
           [(''log'', PList [PStr ''A'', PStr ''B'', PStr ''C''])])"
  by (simp add: linear_flow_state_def engine_defs logging_class_def log_items_def)

theorem C2_flow_run_witness:
  "dispatch__run (Suc 4) 11 1 linear_flow_state =
     Flow__run (dispatch__run 4) 4 11 1 linear_flow_state \<and>
   map_option (\<lambda>r. (fst r, dicts (usr (snd r)) 1))
     (BaseNode_run (Suc (Suc (Suc (Suc (Suc 0))))) 11 1 linear_flow_state) =
     Some (Inr (PStr ''default''),
           [(''log'', PList [PStr ''A'', PStr ''B'', PStr ''C''])])"
  using C2_flow_run [OF linear_flow_class, of 4 1, THEN conjunct1] linear_flow_eval
  by blast

section \<open>Properties of a batch flow run\<close>

lemma dict_set_not_Nil: "dict_set a k v \<noteq> []"
  by (cases a) simp_all

lemma dict_merge_Nil: "dict_merge a b = [] \<Longrightarrow> a = []"
proof (induction b arbitrary: a)
  case Nil
  then show ?case by simp
next
  case (Cons p ps)
  from Cons.IH [of "dict_set a (fst p) (snd p)"] Cons.prems dict_set_not_Nil show ?case
    by fastforce
qed

lemma map_of_dict_merge:
  "distinct (map fst b) \<Longrightarrow> map_of (dict_merge a b) = map_of a ++ map_of b"
proof (induction b arbitrary: a)
  case Nil
  then show ?case by simp
next
  case (Cons p ps)
  obtain k v where p: "p = (k, v)" by (cases p)
  from Cons.prems p have d: "distinct (map fst ps)" and k: "k \<notin> fst ` set ps" by auto
  from k have nk: "map_of ps k = None" by (simp add: map_of_eq_None_iff)
  have "map_of (dict_merge a (p # ps)) = map_of (dict_set a k v) ++ map_of ps"
    by (simp only: p dict_merge.simps fst_conv snd_conv Cons.IH [OF d])
  also have "\<dots> = (map_of a)(k \<mapsto> v) ++ map_of ps"
    by (simp only: map_of_dict_set)
  also have "\<dots> = map_of a ++ (map_of ps)(k \<mapsto> v)"
  proof
    fix x show "((map_of a)(k \<mapsto> v) ++ map_of ps) x = (map_of a ++ (map_of ps)(k \<mapsto> v)) x"
      using nk by (cases "x = k") (simp_all add: map_add_def split: option.splits)
  qed
  finally show ?case by (simp only: p map_of.simps fst_conv snd_conv)
qed

lemma batch_traversals_Nil:
  "batch_traversals run_fn n f sh [] ss \<longleftrightarrow> length ss = Suc 0"
  by (simp add: batch_traversals_def)

lemma batch_traversals_Cons:
  "batch_traversals run_fn n f sh (B # Bs) (s # ss) \<longleftrightarrow>
     ss \<noteq> [] \<and>
     (\<exists>a. Flow__orch run_fn n f sh (Some (fresh (usr s)))
            (snd (new_dict (dict_merge (dicts (usr s) (params_f (usr s) f)) B) s)) =
          Some (Inr a, hd ss)) \<and>
     batch_traversals run_fn n f sh Bs ss"
proof
  assume h: "batch_traversals run_fn n f sh (B # Bs) (s # ss)"
  then have len: "length ss = Suc (length Bs)" by (simp add: batch_traversals_def)
  then have ne: "ss \<noteq> []" by auto
  from h have "\<exists>a. Flow__orch run_fn n f sh (Some (fresh (usr ((s # ss) ! 0))))
          (snd (new_dict (dict_merge (dicts (usr ((s # ss) ! 0))
                  (params_f (usr ((s # ss) ! 0)) f)) ((B # Bs) ! 0))
                  ((s # ss) ! 0))) = Some (Inr a, (s # ss) ! Suc 0)"
    unfolding batch_traversals_def by blast
  then have first: "\<exists>a. Flow__orch run_fn n f sh (Some (fresh (usr s)))
            (snd (new_dict (dict_merge (dicts (usr s) (params_f (usr s) f)) B) s)) =
          Some (Inr a, hd ss)"
    using ne by (simp add: hd_conv_nth)
  have "\<forall>i<length Bs. \<exists>a.
        Flow__orch run_fn n f sh (Some (fresh (usr (ss ! i))))
          (snd (new_dict (dict_merge (dicts (usr (ss ! i)) (params_f (usr (ss ! i)) f)) (Bs ! i))
                  (ss ! i))) = Some (Inr a, ss ! Suc i)"
  proof (intro allI impI)
    fix i assume "i < length Bs"
    then have "Suc i < length (B # Bs)" by simp
    with h have "\<exists>a. Flow__orch run_fn n f sh (Some (fresh (usr ((s # ss) ! Suc i))))
          (snd (new_dict (dict_merge (dicts (usr ((s # ss) ! Suc i))
                  (params_f (usr ((s # ss) ! Suc i)) f)) ((B # Bs) ! Suc i))
                  ((s # ss) ! Suc i))) = Some (Inr a, (s # ss) ! Suc (Suc i))"
      unfolding batch_traversals_def by blast
    then show "\<exists>a.
        Flow__orch run_fn n f sh (Some (fresh (usr (ss ! i))))
          (snd (new_dict (dict_merge (dicts (usr (ss ! i)) (params_f (usr (ss ! i)) f)) (Bs ! i))
                  (ss ! i))) = Some (Inr a, ss ! Suc i)" by simp
  qed
  with len have "batch_traversals run_fn n f sh Bs ss" by (simp add: batch_traversals_def)
  with ne first show "ss \<noteq> [] \<and>
     (\<exists>a. Flow__orch run_fn n f sh (Some (fresh (usr s)))
            (snd (new_dict (dict_merge (dicts (usr s) (params_f (usr s) f)) B) s)) =
          Some (Inr a, hd ss)) \<and>
     batch_traversals run_fn n f sh Bs ss" by blast
next
  assume h: "ss \<noteq> [] \<and>
     (\<exists>a. Flow__orch run_fn n f sh (Some (fresh (usr s)))
            (snd (new_dict (dict_merge (dicts (usr s) (params_f (usr s) f)) B) s)) =
          Some (Inr a, hd ss)) \<and>
     batch_traversals run_fn n f sh Bs ss"
  then have len: "length ss = Suc (length Bs)" by (simp add: batch_traversals_def)
  have "\<forall>i<length (B # Bs). \<exists>a. Flow__orch run_fn n f sh (Some (fresh (usr ((s # ss) ! i))))
          (snd (new_dict (dict_merge (dicts (usr ((s # ss) ! i))
                  (params_f (usr ((s # ss) ! i)) f)) ((B # Bs) ! i))
                  ((s # ss) ! i))) = Some (Inr a, (s # ss) ! Suc i)"
  proof (intro allI impI)
    fix i assume i: "i < length (B # Bs)"
    show "\<exists>a. Flow__orch run_fn n f sh (Some (fresh (usr ((s # ss) ! i))))
          (snd (new_dict (dict_merge (dicts (usr ((s # ss) ! i))
                  (params_f (usr ((s # ss) ! i)) f)) ((B # Bs) ! i))
                  ((s # ss) ! i))) = Some (Inr a, (s # ss) ! Suc i)"
    proof (cases i)
      case 0
      from h have "ss ! 0 = hd ss" by (simp add: hd_conv_nth)
      with h 0 show ?thesis by simp
    next
      case (Suc j)
      with i have "j < length Bs" by simp
      with h Suc show ?thesis unfolding batch_traversals_def by simp
    qed
  qed
  with len show "batch_traversals run_fn n f sh (B # Bs) (s # ss)"
    by (simp add: batch_traversals_def)
qed

lemma BatchFlow__run_for_chain:
  "BatchFlow__run_for run_fn n f sh (map PDict Bs) s1 = Some (Inr (), s2) \<longleftrightarrow>
     (\<exists>ss. batch_traversals run_fn n f sh Bs ss \<and> hd ss = s1 \<and> last ss = s2)"
proof (induction Bs arbitrary: s1)
  case Nil
  show ?case
  proof
    assume "BatchFlow__run_for run_fn n f sh (map PDict []) s1 = Some (Inr (), s2)"
    then have "s2 = s1" by simp
    then have "batch_traversals run_fn n f sh [] [s1] \<and> hd [s1] = s1 \<and> last [s1] = s2"
      by (simp add: batch_traversals_Nil)
    then show "\<exists>ss. batch_traversals run_fn n f sh [] ss \<and> hd ss = s1 \<and> last ss = s2" by blast
  next
    assume "\<exists>ss. batch_traversals run_fn n f sh [] ss \<and> hd ss = s1 \<and> last ss = s2"
    then obtain ss where "length ss = Suc 0" "hd ss = s1" "last ss = s2"
      by (auto simp: batch_traversals_Nil)
    then have "s2 = s1" by (cases ss) auto
    then show "BatchFlow__run_for run_fn n f sh (map PDict []) s1 = Some (Inr (), s2)" by simp
  qed
next
  case (Cons B Bs)
  let ?o = "Flow__orch run_fn n f sh (Some (fresh (usr s1)))
            (snd (new_dict (dict_merge (dicts (usr s1) (params_f (usr s1) f)) B) s1))"
  have unf: "BatchFlow__run_for run_fn n f sh (map PDict (B # Bs)) s1 =
     (case ?o of None \<Rightarrow> None | Some (Inl e, s') \<Rightarrow> Some (Inl e, s')
      | Some (Inr a, s') \<Rightarrow> BatchFlow__run_for run_fn n f sh (map PDict Bs) s')"
    by (simp add: new_dict_def Let_def)
  show ?case
  proof
    assume r: "BatchFlow__run_for run_fn n f sh (map PDict (B # Bs)) s1 = Some (Inr (), s2)"
    with unf obtain a s' where o: "?o = Some (Inr a, s')"
      and rest: "BatchFlow__run_for run_fn n f sh (map PDict Bs) s' = Some (Inr (), s2)"
      by (auto split: option.splits prod.splits sum.splits)
    from Cons.IH [of s'] rest obtain ss where
      ss: "batch_traversals run_fn n f sh Bs ss" "hd ss = s'" "last ss = s2" by blast
    then have ne: "ss \<noteq> []" by (auto simp: batch_traversals_def)
    have "batch_traversals run_fn n f sh (B # Bs) (s1 # ss)"
      using ss ne o by (simp add: batch_traversals_Cons)
    moreover have "hd (s1 # ss) = s1" "last (s1 # ss) = s2" using ss ne by simp_all
    ultimately show "\<exists>ss. batch_traversals run_fn n f sh (B # Bs) ss \<and> hd ss = s1 \<and> last ss = s2"
      by blast
  next
    assume "\<exists>ss. batch_traversals run_fn n f sh (B # Bs) ss \<and> hd ss = s1 \<and> last ss = s2"
    then obtain ss0 where h: "batch_traversals run_fn n f sh (B # Bs) ss0" "hd ss0 = s1"
      "last ss0 = s2" by blast
    then obtain ss where ss0: "ss0 = s1 # ss"
      by (cases ss0) (auto simp: batch_traversals_def)
    with h have c: "ss \<noteq> []"
      "\<exists>a. ?o = Some (Inr a, hd ss)" "batch_traversals run_fn n f sh Bs ss"
      by (simp_all add: batch_traversals_Cons)
    then obtain a where o: "?o = Some (Inr a, hd ss)" by blast
    have "last ss = s2" using h ss0 c by simp
    with c Cons.IH [of "hd ss"] have
      "BatchFlow__run_for run_fn n f sh (map PDict Bs) (hd ss) = Some (Inr (), s2)" by blast
    with unf o show "BatchFlow__run_for run_fn n f sh (map PDict (B # Bs)) s1 = Some (Inr (), s2)"
      by simp
  qed
qed

lemma Flow__orch_with_params:
  assumes "f < fresh (usr s0)"
  shows "\<exists>cur np s3.
     Flow__orch run_fn n f sh (Some (fresh (usr s0)))
       (snd (new_dict (dict_merge (dicts (usr s0) (params_f (usr s0) f)) B) s0)) =
     Flow__orch_while run_fn n f cur np sh PNone s3 \<and>
     dicts (usr s3) np = dict_merge (dicts (usr s0) (params_f (usr s0) f)) B"
proof -
  let ?m = "dict_merge (dicts (usr s0) (params_f (usr s0) f)) B"
  let ?d = "fresh (usr s0)"
  let ?sd = "snd (new_dict ?m s0)"
  obtain cur sA where cc: "copy_copy (start_node_f ?sd f) ?sd = (cur, sA)"
    by (cases "copy_copy (start_node_f ?sd f) ?sd")
  have dA: "dicts (usr sA) = (dicts (usr s0))(?d := ?m)"
    using cc by (cases "start_node_f ?sd f") (auto simp: copy_copy_def new_dict_def Let_def)
  have pA: "params_f (usr sA) f = params_f (usr s0) f"
    using cc assms
    by (cases "start_node_f ?sd f") (auto simp: copy_copy_def new_dict_def Let_def)
  show ?thesis
  proof (cases "?m = []")
    case False
    then have "Flow__orch run_fn n f sh (Some ?d) ?sd =
                 Flow__orch_while run_fn n f cur ?d sh PNone sA"
      using cc dA by (simp add: Flow__orch_def del: Flow__orch_while.simps)
    moreover have "dicts (usr sA) ?d = ?m" using dA by simp
    ultimately show ?thesis by blast
  next
    case True
    then have fp: "dicts (usr s0) (params_f (usr s0) f) = []" by (rule dict_merge_Nil)
    have c: "dicts (usr sA) (params_f (usr sA) f) = []"
      using dA pA fp True by simp
    obtain np s3 where nd: "new_dict (dicts (usr sA) (params_f (usr sA) f)) sA = (np, s3)"
      by (cases "new_dict (dicts (usr sA) (params_f (usr sA) f)) sA")
    have "Flow__orch run_fn n f sh (Some ?d) ?sd =
            Flow__orch_while run_fn n f cur np sh PNone s3"
      using cc dA True nd by (simp add: Flow__orch_def del: Flow__orch_while.simps)
    moreover have "dicts (usr s3) np = ?m"
      using nd c True by (auto simp: new_dict_def Let_def)
    ultimately show ?thesis by blast
  qed
qed

text \<open>
  C5: for a batch flow whose prepare returns the list of parameter maps \<open>Bs\<close>, the run
  is one full traversal per map, in list order, each in the state left by the one before
  (they work on the same shared object and see each other's mutations); the nodes of
  traversal \<open>i\<close> get a parameter dict holding \<^verbatim>\<open>{**self.params, **Bs[i]}\<close>, the
  key-wise merge in which \<open>Bs ! i\<close> wins; afterwards the flow's post is called with the
  list of maps as the prepare value and \<^verbatim>\<open>None\<close> as the execute result. The run
  returns exactly when every traversal does.
\<close>

theorem C5_batch_flow:
  assumes "resolve defines__run (base (class_of s f)) = BatchFlow"
    and "call_prep f sh s = (Inr (PList (map PDict Bs)), s1)"
  shows "dispatch__run (Suc n) f sh s = BatchFlow__run (dispatch__run n) n f sh s \<and>
    (\<forall>run_fn s2.
       BatchFlow__run_for run_fn n f sh (map PDict Bs) s1 = Some (Inr (), s2) \<longleftrightarrow>
         (\<exists>ss. batch_traversals run_fn n f sh Bs ss \<and> hd ss = s1 \<and> last ss = s2)) \<and>
    (\<forall>run_fn s2.
       BatchFlow__run_for run_fn n f sh (map PDict Bs) s1 = Some (Inr (), s2) \<longrightarrow>
         BatchFlow__run run_fn n f sh s =
           Some (call_post f sh (PList (map PDict Bs)) PNone s2) \<and>
         trace (snd (call_post f sh (PList (map PDict Bs)) PNone s2)) =
           trace s2 @ [Call (view s2 f) (Post sh (PList (map PDict Bs)) PNone)
                         (fst (call_post f sh (PList (map PDict Bs)) PNone s2))]) \<and>
    (\<forall>run_fn B s0. f < fresh (usr s0) \<longrightarrow>
       (\<exists>cur np s3.
          Flow__orch run_fn n f sh (Some (fresh (usr s0)))
            (snd (new_dict (dict_merge (dicts (usr s0) (params_f (usr s0) f)) B) s0)) =
          Flow__orch_while run_fn n f cur np sh PNone s3 \<and>
          dicts (usr s3) np = dict_merge (dicts (usr s0) (params_f (usr s0) f)) B)) \<and>
    (\<forall>fp B :: (string \<times> pyval) list.
       distinct (map fst B) \<longrightarrow> map_of (dict_merge fp B) = map_of fp ++ map_of B)"
proof -
  let ?p = "PList (map PDict Bs)"
  have d: "dispatch__run (Suc n) f sh s = BatchFlow__run (dispatch__run n) n f sh s"
    using assms(1) by simp
  have c: "\<forall>run_fn s2.
       BatchFlow__run_for run_fn n f sh (map PDict Bs) s1 = Some (Inr (), s2) \<longleftrightarrow>
         (\<exists>ss. batch_traversals run_fn n f sh Bs ss \<and> hd ss = s1 \<and> last ss = s2)"
    using BatchFlow__run_for_chain by blast
  have it: "py_iter (py_or ?p (PList [])) = Inr (map PDict Bs)"
    by (cases Bs) (simp_all add: py_or_def)
  have po: "py_or ?p (PList []) = ?p"
    by (cases Bs) (simp_all add: py_or_def)
  have r: "\<forall>run_fn s2.
       BatchFlow__run_for run_fn n f sh (map PDict Bs) s1 = Some (Inr (), s2) \<longrightarrow>
         BatchFlow__run run_fn n f sh s = Some (call_post f sh ?p PNone s2) \<and>
         trace (snd (call_post f sh ?p PNone s2)) =
           trace s2 @ [Call (view s2 f) (Post sh ?p PNone) (fst (call_post f sh ?p PNone s2))]"
  proof (intro allI impI)
    fix run_fn :: "'a run_fn" and s2
    assume l: "BatchFlow__run_for run_fn n f sh (map PDict Bs) s1 = Some (Inr (), s2)"
    have a: "BatchFlow__run run_fn n f sh s = Some (call_post f sh ?p PNone s2)"
      using assms(2) l it po by (simp add: BatchFlow__run_def Let_def)
    obtain x s4 where cp: "call_post f sh ?p PNone s2 = (x, s4)"
      by (cases "call_post f sh ?p PNone s2")
    have b: "trace (snd (call_post f sh ?p PNone s2)) =
           trace s2 @ [Call (view s2 f) (Post sh ?p PNone) (fst (call_post f sh ?p PNone s2))]"
      using call_post_shape [OF cp] cp by simp
    from a b show "BatchFlow__run run_fn n f sh s = Some (call_post f sh ?p PNone s2) \<and>
         trace (snd (call_post f sh ?p PNone s2)) =
           trace s2 @ [Call (view s2 f) (Post sh ?p PNone) (fst (call_post f sh ?p PNone s2))]"
      by blast
  qed
  have m: "\<forall>run_fn B s0. f < fresh (usr s0) \<longrightarrow>
       (\<exists>cur np s3.
          Flow__orch run_fn n f sh (Some (fresh (usr s0)))
            (snd (new_dict (dict_merge (dicts (usr s0) (params_f (usr s0) f)) B) s0)) =
          Flow__orch_while run_fn n f cur np sh PNone s3 \<and>
          dicts (usr s3) np = dict_merge (dicts (usr s0) (params_f (usr s0) f)) B)"
    using Flow__orch_with_params by blast
  have g: "\<forall>fp B :: (string \<times> pyval) list.
       distinct (map fst B) \<longrightarrow> map_of (dict_merge fp B) = map_of fp ++ map_of B"
    using map_of_dict_merge by blast
  from d c r m g show ?thesis by blast
qed

lemma batch_flow_facts:
  "resolve defines__run (base (class_of batch_flow_state 5)) = BatchFlow"
  "call_prep 5 1 batch_flow_state =
     (Inr (PList (map PDict batch_maps)), snd (call_prep 5 1 batch_flow_state))"
  by (simp_all add: batch_flow_state_def batch_flow_class_def param_reader_class_def
        logging_class_def engine_defs)

lemma batch_flow_eval:
  "map_option (\<lambda>r. (fst r, dicts (usr (snd r)) 1))
     (BaseNode_run (Suc (Suc 0)) 5 1 batch_flow_state) =
     Some (Inr PNone, [(''log'', PList [PInt 0, PInt 1, PInt 2])])"
  by (simp add: batch_flow_state_def batch_flow_class_def param_reader_class_def batch_maps_def
        logging_class_def log_items_def engine_defs)

lemma batch_flow_loop_eval:
  "map_option fst
     (BatchFlow__run_for (dispatch__run (Suc 0)) (Suc 0) 5 1 (map PDict batch_maps)
        (snd (call_prep 5 1 batch_flow_state))) = Some (Inr ())"
  by (simp add: batch_flow_state_def batch_flow_class_def param_reader_class_def batch_maps_def
        logging_class_def log_items_def engine_defs)

theorem C5_batch_flow_witness:
  "map_option (\<lambda>r. (fst r, dicts (usr (snd r)) 1))
     (BaseNode_run (Suc (Suc 0)) 5 1 batch_flow_state) =
     Some (Inr PNone, [(''log'', PList [PInt 0, PInt 1, PInt 2])]) \<and>
   (\<exists>ss. batch_traversals (dispatch__run (Suc 0)) (Suc 0) 5 1 batch_maps ss \<and>
         hd ss = snd (call_prep 5 1 batch_flow_state))"
proof -
  note t = C5_batch_flow [OF batch_flow_facts, of "Suc 0"]
  from batch_flow_loop_eval obtain s2 where
    "BatchFlow__run_for (dispatch__run (Suc 0)) (Suc 0) 5 1 (map PDict batch_maps)
        (snd (call_prep 5 1 batch_flow_state)) = Some (Inr (), s2)"
    by (cases "BatchFlow__run_for (dispatch__run (Suc 0)) (Suc 0) 5 1 (map PDict batch_maps)
        (snd (call_prep 5 1 batch_flow_state))") auto
  with t have "\<exists>ss. batch_traversals (dispatch__run (Suc 0)) (Suc 0) 5 1 batch_maps ss \<and>
         hd ss = snd (call_prep 5 1 batch_flow_state)"
    by blast
  with batch_flow_eval show ?thesis by blast
qed

section \<open>Visit isolation\<close>



lemma revisit_rebinds_eval:
  "map_option (\<lambda>r. prep_outcomes (trace (snd r)))
     (BaseNode_run (Suc (Suc (Suc 0))) 5 1 (revisit_state exec_rebinds)) =
     Some [(5, Inr PNone), (8, Inr (PDict [])), (11, Inr (PDict []))]"
  by (simp add: revisit_state_def revisit_class_def exec_rebinds_def engine_defs
        prep_outcomes_def List.map_filter_simps)












end
